theory Spec2Isabelle
  imports Main "HOL-Library.Word" "HOL-Library.Code_Target_Nat"
begin

section \<open>Strings\<close>

text \<open>
  A JavaScript string is a sequence of UTF-16 code units. Every string operation the
  program uses (\<^verbatim>\<open>split\<close>, \<^verbatim>\<open>trim\<close>, \<^verbatim>\<open>includes\<close>, indexing, regular
  expressions without the \<^verbatim>\<open>u\<close> flag) works on code units, so a string is modelled as
  a list of code-unit numbers. \<open>js\<close> turns an ASCII literal into such a list.
\<close>

type_synonym jsstring = "nat list"

definition js :: "string \<Rightarrow> jsstring" where
  "js s = map of_char s"

text \<open>
  The code units that \<^verbatim>\<open>String.prototype.trim\<close> strips and that \<^verbatim>\<open>\s\<close> matches:
  ECMAScript's WhiteSpace and LineTerminator (TAB, LF, VT, FF, CR, SP, NBSP, U+1680,
  U+2000 to U+200A, U+2028, U+2029, U+202F, U+205F, U+3000, U+FEFF).
\<close>

definition isWhiteSpace :: "nat \<Rightarrow> bool" where
  "isWhiteSpace c =
     (c = 9 \<or> c = 10 \<or> c = 11 \<or> c = 12 \<or> c = 13 \<or> c = 32 \<or> c = 160 \<or> c = 5760
      \<or> (8192 \<le> c \<and> c \<le> 8202) \<or> c = 8232 \<or> c = 8233 \<or> c = 8239 \<or> c = 8287
      \<or> c = 12288 \<or> c = 65279)"

definition trim :: "jsstring \<Rightarrow> jsstring" where
  "trim s = rev (dropWhile isWhiteSpace (rev (dropWhile isWhiteSpace s)))"

text \<open>
  \<^verbatim>\<open>text.split(sep)\<close> for a one-unit separator: the pieces between the separators, so
  \<open>n\<close> separators give \<open>n + 1\<close> pieces and the empty string gives one empty piece.
\<close>

fun split :: "nat \<Rightarrow> jsstring \<Rightarrow> jsstring list" where
  "split sep [] = [[]]"
| "split sep (c # cs) =
     (if c = sep then [] # split sep cs
      else (case split sep cs of [] \<Rightarrow> [[c]] | l # ls \<Rightarrow> (c # l) # ls))"

section \<open>CSV parsing (parseCSV)\<close>

text \<open>
  The body of the \<^verbatim>\<open>for\<close> loop of \<^verbatim>\<open>parseCSV\<close>, with its three variables
  \<^verbatim>\<open>row\<close>, \<^verbatim>\<open>inQuote\<close> and \<^verbatim>\<open>currentValue\<close> as arguments and the characters
  of the line still to read as the last one. When the line is used up the last value
  is pushed. Code unit 34 is the double quote, 44 the comma, 10 the line feed.
\<close>

fun scan_line :: "jsstring list \<Rightarrow> bool \<Rightarrow> jsstring \<Rightarrow> jsstring \<Rightarrow> jsstring list" where
  "scan_line row inQuote currentValue [] = row @ [trim currentValue]"
| "scan_line row inQuote currentValue (char # rest) =
     (if char = 34 then scan_line row (\<not> inQuote) currentValue rest
      else if char = 44 \<and> \<not> inQuote then scan_line (row @ [trim currentValue]) inQuote [] rest
      else scan_line row inQuote (currentValue @ [char]) rest)"

definition parse_line :: "jsstring \<Rightarrow> jsstring list" where
  "parse_line line = scan_line [] False [] line"

text \<open>The filter of \<^verbatim>\<open>parseCSV\<close>: \<^verbatim>\<open>row.length > 0 && row[0].trim() !== ''\<close>.\<close>

definition keep_row :: "jsstring list \<Rightarrow> bool" where
  "keep_row row = (case row of [] \<Rightarrow> False | first # _ \<Rightarrow> trim first \<noteq> [])"

definition parseCSV :: "jsstring \<Rightarrow> jsstring list list" where
  "parseCSV csv = filter keep_row (map parse_line (split 10 csv))"

section \<open>Configuration as the engine reads it\<close>

text \<open>
  \<^verbatim>\<open>timerSettings\<close> holds the three numbers the timer reads. The timer only compares
  them with zero, decrements them and prints them, so whole numbers are modelled as
  \<open>int\<close>. \<^verbatim>\<open>dataSourceUrl\<close> is \<^verbatim>\<open>config.dataSource.url\<close>, \<open>None\<close> when
  \<^verbatim>\<open>dataSource\<close> or its \<^verbatim>\<open>url\<close> is missing or null.
\<close>

record timerSettings =
  initialMinutes :: int
  initialSeconds :: int
  restartAfterMinutes :: int

record config =
  timerSettings :: timerSettings
  defaultText :: jsstring
  dataSourceUrl :: "jsstring option"

text \<open>The defaults of the source.\<close>

definition default_config :: config where
  "default_config =
     \<lparr>timerSettings = \<lparr>initialMinutes = 28, initialSeconds = 0, restartAfterMinutes = 1\<rparr>,
      defaultText = js ''Self-care Special'',
      dataSourceUrl = Some []\<rparr>"

section \<open>Promo text selection (getPromoText)\<close>

text \<open>
  A row is an array of strings; \<^verbatim>\<open>row[i]\<close> is \<^verbatim>\<open>undefined\<close> past its end, which is
  \<open>None\<close> here. The result of \<^verbatim>\<open>getPromoText\<close> is a string or \<^verbatim>\<open>undefined\<close> (when
  the matching row has no second field), again \<open>None\<close>.
\<close>

definition field :: "jsstring list \<Rightarrow> nat \<Rightarrow> jsstring option" where
  "field row i = (if i < length row then Some (row ! i) else None)"

text \<open>
  The \<^verbatim>\<open>for\<close> loop of \<^verbatim>\<open>getPromoText\<close> over the rows from index 1 on: the first
  row whose \<^verbatim>\<open>row[0]\<close> is the country code decides, with no look at the dates (the
  date check is commented out in the source).
\<close>

fun promo_loop :: "config \<Rightarrow> jsstring \<Rightarrow> jsstring list list \<Rightarrow> jsstring option" where
  "promo_loop cfg countryCode [] = Some (defaultText cfg)"
| "promo_loop cfg countryCode (row # rest) =
     (if field row 0 = Some countryCode then field row 1
      else promo_loop cfg countryCode rest)"

text \<open>
  \<^verbatim>\<open>promoData\<close> is \<open>None\<close> when it is null or undefined. The current date is an
  argument the function never reads, so its type is left open.
\<close>

definition getPromoText ::
  "config \<Rightarrow> jsstring \<Rightarrow> 'date \<Rightarrow> jsstring list list option \<Rightarrow> jsstring option" where
  "getPromoText cfg countryCode currentDate promoData =
     (case promoData of
        None \<Rightarrow> Some (defaultText cfg)
      | Some rows \<Rightarrow>
          if length rows \<le> 1 then Some (defaultText cfg)
          else promo_loop cfg countryCode (drop 1 rows))"

text \<open>The built-in rows of \<^verbatim>\<open>getFallbackPromoData\<close>.\<close>

definition getFallbackPromoData :: "jsstring list list" where
  "getFallbackPromoData =
     [[js ''Country'', js ''PromoText'', js ''StartDate'', js ''EndDate''],
      [js ''AU'', js ''Australia Day Special'', js ''2025-01-26'', js ''2025-01-26''],
      [js ''DE'', js ''German Unity Day Special'', js ''2025-10-03'', js ''2025-10-03''],
      [js ''US'', js ''4th of July Special'', js ''2025-07-04'', js ''2025-07-04'']]"

section \<open>The countdown timer\<close>

text \<open>
  JavaScript numbers are IEEE doubles. The counters are whole numbers, modelled as
  \<open>int\<close>; the arithmetic on them rounds as the doubles do. Between two neighbouring
  doubles of magnitude \<open>n\<close> lie \<open>ulp n\<close> whole numbers: one below \<open>2\<^sup>5\<^sup>3\<close>
  (9007199254740992), two up to \<open>2\<^sup>5\<^sup>4\<close>, and so on. \<open>to_double\<close> is the double
  nearest to a whole number, the one with the even mantissa when two are equally near,
  and \<open>decrement\<close> is \<^verbatim>\<open>x--\<close> on a whole number \<open>x\<close>: the exact difference, rounded.
  (A whole number beyond the largest double, about \<open>1.8 \<cdot> 10\<^sup>3\<^sup>0\<^sup>8\<close>, is no value of a
  counter.)
\<close>

function ulp :: "nat \<Rightarrow> nat" where
  "ulp n = (if n < 9007199254740992 then 1 else 2 * ulp (n div 2))"
  by pat_completeness auto
termination
  by (relation "measure id") auto

declare ulp.simps [simp del]

definition round_nat :: "nat \<Rightarrow> nat" where
  "round_nat n =
     (let u = ulp n; q = n div u; r = n mod u
      in if 2 * r < u then q * u
         else if u < 2 * r then (q + 1) * u
         else if even q then q * u
         else (q + 1) * u)"

definition to_double :: "int \<Rightarrow> int" where
  "to_double i = (if i < 0 then - int (round_nat (nat (- i))) else int (round_nat (nat i)))"

definition decrement :: "int \<Rightarrow> int" where
  "decrement x = to_double (x - 1)"

text \<open>
  \<^verbatim>\<open>String(n)\<close> for a whole number: plain decimal below \<open>10\<^sup>2\<^sup>1\<close>; from there on
  JavaScript prints the exponent form, which the model takes from the host as
  \<open>exponentForm\<close>. \<^verbatim>\<open>padStart(2, '0')\<close> puts zeros before a string shorter than two.
  Code unit 48 is the digit zero, 45 the minus sign, 58 the colon.
\<close>

function nat_to_string :: "nat \<Rightarrow> jsstring" where
  "nat_to_string n = (if n < 10 then [48 + n] else nat_to_string (n div 10) @ [48 + n mod 10])"
  by pat_completeness auto
termination
  by (relation "measure id") auto

declare nat_to_string.simps [simp del]

definition String :: "(int \<Rightarrow> jsstring) \<Rightarrow> int \<Rightarrow> jsstring" where
  "String exponentForm i =
     (if 1000000000000000000000 \<le> \<bar>i\<bar> then exponentForm i
      else if i < 0 then 45 # nat_to_string (nat (- i))
      else nat_to_string (nat i))"

definition padStart2 :: "jsstring \<Rightarrow> jsstring" where
  "padStart2 s = replicate (2 - length s) 48 @ s"

text \<open>
  What the timer code reads and writes: the two counters and the interval handle of
  \<^verbatim>\<open>state\<close>, the configuration, and of the host page the text of every element (by
  element), the element \<^verbatim>\<open>getElementById('timer-display')\<close> finds, the live intervals
  (handle, the element the callback closes over, period in milliseconds), the pending
  one-shot timeouts (each with its delay in milliseconds; the only timeout callback of
  the program is the restart), the number of timers created so far (a browser
  numbers them from 1), and how the host prints the whole numbers of magnitude
  \<open>10\<^sup>2\<^sup>1\<close> and more.
\<close>

record world =
  minutes :: int
  seconds :: int
  timerInterval :: "nat option"
  cfg :: config
  textContent :: "nat \<Rightarrow> jsstring"
  timerDisplay :: "nat option"
  intervals :: "(nat \<times> nat \<times> int) list"
  timeouts :: "int list"
  timersCreated :: nat
  numberToExponent :: "int \<Rightarrow> jsstring"

definition updateTimerDisplay :: "nat option \<Rightarrow> world \<Rightarrow> world" where
  "updateTimerDisplay element w =
     (case element of
        None \<Rightarrow> w
      | Some e \<Rightarrow>
          w\<lparr>textContent := (textContent w)
               (e := padStart2 (String (numberToExponent w) (minutes w)) @ [58]
                     @ padStart2 (String (numberToExponent w) (seconds w)))\<rparr>)"

definition handleTimerExpiration :: "world \<Rightarrow> world" where
  "handleTimerExpiration w =
     w\<lparr>timeouts := timeouts w @ [restartAfterMinutes (timerSettings (cfg w)) * 60 * 1000]\<rparr>"


text \<open>The callback \<^verbatim>\<open>startTimer\<close> hands to \<^verbatim>\<open>setInterval\<close>: one tick.\<close>

definition tick :: "nat \<Rightarrow> world \<Rightarrow> world" where
  "tick timerElement w =
     updateTimerDisplay (Some timerElement)
       (if seconds w > 0 then w\<lparr>seconds := decrement (seconds w)\<rparr>
        else if minutes w > 0 then w\<lparr>minutes := decrement (minutes w), seconds := 59\<rparr>
        else handleTimerExpiration w)"






text \<open>
  A page whose timer element is element 7, with the default configuration and one live
  interval. No counter of the examples comes near \<open>10\<^sup>2\<^sup>1\<close>, so the exponent form is
  never asked for.
\<close>

definition example_world :: "int \<Rightarrow> int \<Rightarrow> world" where
  "example_world m s =
     \<lparr>minutes = m, seconds = s, timerInterval = Some 1, cfg = default_config,
      textContent = (\<lambda>_. []), timerDisplay = Some 7, intervals = [(1, 7, 1000)],
      timeouts = [], timersCreated = 1, numberToExponent = (\<lambda>n. [])\<rparr>"

section \<open>Promo data with its cache (fetchPromoData)\<close>

text \<open>
  A promise that has settled: resolved with a value, or rejected with a reason.
  \<^verbatim>\<open>then\<close> runs its callback on a resolved promise and passes a rejection on;
  \<^verbatim>\<open>catch\<close> runs its callback on a rejected one. A callback that throws gives a
  rejected promise.
\<close>

datatype 'a promise = Resolved 'a | Rejected jsstring

definition then_promise :: "'a promise \<Rightarrow> ('a \<Rightarrow> 'b promise) \<Rightarrow> 'b promise" where
  "then_promise p callback = (case p of Resolved v \<Rightarrow> callback v | Rejected err \<Rightarrow> Rejected err)"

definition catch_promise :: "'a promise \<Rightarrow> (jsstring \<Rightarrow> 'a promise) \<Rightarrow> 'a promise" where
  "catch_promise p callback = (case p of Resolved v \<Rightarrow> Resolved v | Rejected err \<Rightarrow> callback err)"

text \<open>
  What \<^verbatim>\<open>fetch\<close> resolves with: \<^verbatim>\<open>response.ok\<close>, \<^verbatim>\<open>response.status\<close> (an unsigned
  16-bit number, printed in plain decimal) and the promise \<^verbatim>\<open>response.text()\<close>
  returns. A transport failure is a rejected \<^verbatim>\<open>fetch\<close> or a rejected \<^verbatim>\<open>text()\<close>.
\<close>

record response =
  ok :: bool
  status :: "16 word"
  body :: "jsstring promise"

text \<open>
  The surroundings of one call: what \<^verbatim>\<open>Date.now()\<close> returns when the call checks the
  cache and when the response is stored, and the network.
\<close>

record env =
  nowAtCall :: int
  nowAtStore :: int
  fetch :: "jsstring \<Rightarrow> response promise"

text \<open>
  The cache: \<open>None\<close> is \<^verbatim>\<open>null\<close>. Rows, once stored, are an array, which is truthy
  even when empty; a time stamp is truthy unless it is 0.
\<close>

record cache =
  promoData :: "jsstring list list option"
  lastFetched :: "int option"

text \<open>
  The first \<^verbatim>\<open>if\<close> of \<^verbatim>\<open>fetchPromoData\<close>: the rows it returns from the cache, if any.
\<close>

definition cache_hit :: "int \<Rightarrow> cache \<Rightarrow> jsstring list list option" where
  "cache_hit now c =
     (case promoData c of
        None \<Rightarrow> None
      | Some rows \<Rightarrow>
          (case lastFetched c of
             None \<Rightarrow> None
           | Some t \<Rightarrow> if t \<noteq> 0 \<and> now - t < 3600000 then Some rows else None))"

text \<open>
  \<^verbatim>\<open>fetchPromoData\<close> returns the promise, the cache as the call leaves it, and the URLs
  it fetched. The cache is written by the second \<^verbatim>\<open>then\<close> callback, which runs exactly
  when the promise before it resolved.
\<close>

definition fetchPromoData ::
  "config \<Rightarrow> env \<Rightarrow> cache \<Rightarrow> jsstring list list promise \<times> cache \<times> jsstring list" where
  "fetchPromoData cf env c =
     (case cache_hit (nowAtCall env) c of
        Some rows \<Rightarrow> (Resolved rows, c, [])
      | None \<Rightarrow>
          (case dataSourceUrl cf of
             None \<Rightarrow> (Resolved getFallbackPromoData, c, [])
           | Some url \<Rightarrow>
               if url = [] then (Resolved getFallbackPromoData, c, [])
               else
                 (let p1 = fetch env url;
                      p2 = then_promise p1 (\<lambda>response.
                             if \<not> ok response
                             then Rejected (js ''Failed to fetch promo data: ''
                                            @ nat_to_string (unat (status response)))
                             else body response);
                      p3 = then_promise p2 (\<lambda>csvText. Resolved (parseCSV csvText));
                      c' = (case p3 of
                              Resolved data \<Rightarrow>
                                \<lparr>promoData = Some data, lastFetched = Some (nowAtStore env)\<rparr>
                            | Rejected err \<Rightarrow> c);
                      p4 = catch_promise p3 (\<lambda>err. Resolved getFallbackPromoData)
                  in (p4, c', [url]))))"

text \<open>
  The network fetch of a call fails: a rejected fetch, a response that is not ok, or a
  body that cannot be read.
\<close>

definition fetch_fails :: "env \<Rightarrow> jsstring \<Rightarrow> bool" where
  "fetch_fails env url =
     (case fetch env url of
        Rejected err \<Rightarrow> True
      | Resolved response \<Rightarrow>
          \<not> ok response \<or> (case body response of Rejected err \<Rightarrow> True | Resolved t \<Rightarrow> False))"

text \<open>A cache, a configuration and three networks for the examples.\<close>

definition example_cache :: "int \<Rightarrow> cache" where
  "example_cache t =
     \<lparr>promoData = Some [[js ''Country'', js ''PromoText''], [js ''FR'', js ''Cached'']],
      lastFetched = Some t\<rparr>"

definition example_config :: config where
  "example_config = default_config\<lparr>dataSourceUrl := Some (js ''https://example.org/promo.csv'')\<rparr>"

definition network_up :: "jsstring \<Rightarrow> response promise" where
  "network_up url =
     Resolved \<lparr>ok = True, status = 200,
               body = Resolved (js ''Country,PromoText'' @ [10] @ js ''DE,Fresh'' @ [10])\<rparr>"

definition network_down :: "jsstring \<Rightarrow> response promise" where
  "network_down url = Rejected (js ''Failed to fetch'')"

definition network_404 :: "jsstring \<Rightarrow> response promise" where
  "network_404 url = Resolved \<lparr>ok = False, status = 404, body = Resolved []\<rparr>"

section \<open>Configuration trees and their merge (mergeConfig)\<close>

datatype js_error = TypeError | SyntaxError | SecurityError

text \<open>
  The values a configuration holds are those of JSON, and \<^verbatim>\<open>undefined\<close>. An object is
  its prototype and the list of its own properties, all of them enumerable data
  properties, each key once, in the order \<^verbatim>\<open>for...in\<close> visits them: the keys that are
  array indices in ascending order, then the other keys in the order they were
  created. The prototype of an object is \<^verbatim>\<open>Object.prototype\<close>, which an object literal,
  \<^verbatim>\<open>JSON.parse\<close> and the spread \<^verbatim>\<open>{ ...v }\<close> give, or what an assignment to
  \<^verbatim>\<open>__proto__\<close> has put there: null or an object. \<^verbatim>\<open>Object.prototype\<close> itself is a
  value too, since \<^verbatim>\<open>result['__proto__']\<close> reads it; it has no enumerable property, and
  its own properties are methods (\<^verbatim>\<open>hasOwnProperty\<close> is one) and the accessor
  \<^verbatim>\<open>__proto__\<close>. Arrays and strings keep their built-in prototypes, which end in
  \<^verbatim>\<open>Object.prototype\<close> and have no enumerable property either. Numbers are only carried
  and compared with zero, so whole numbers stand for them.
\<close>

datatype jsval =
    JUndefined
  | JNull
  | JBool bool
  | JNum int
  | JStr jsstring
  | JArr "jsval list"
  | JObj jsval "(jsstring \<times> jsval) list"
  | JObjectPrototype

text \<open>An object as an object literal or \<^verbatim>\<open>JSON.parse\<close> gives it.\<close>

abbreviation plain_object :: "(jsstring \<times> jsval) list \<Rightarrow> jsval" where
  "plain_object props \<equiv> JObj JObjectPrototype props"

text \<open>\<^verbatim>\<open>typeof v === 'object' && v !== null\<close>: objects and arrays.\<close>

fun is_composite :: "jsval \<Rightarrow> bool" where
  "is_composite (JArr xs) = True"
| "is_composite (JObj proto props) = True"
| "is_composite JObjectPrototype = True"
| "is_composite v = False"

text \<open>The own properties of an array: its indices, as decimal strings, in order.\<close>

fun index_props :: "nat \<Rightarrow> jsval list \<Rightarrow> (jsstring \<times> jsval) list" where
  "index_props i [] = []"
| "index_props i (x # xs) = (nat_to_string i, x) # index_props (Suc i) xs"

text \<open>
  The own enumerable properties of a value: what the spread \<^verbatim>\<open>{ ...v }\<close> copies and
  what \<^verbatim>\<open>for (key in v)\<close> with the \<^verbatim>\<open>hasOwnProperty\<close> test visits. A string has its
  code units at its indices; the other primitives and \<^verbatim>\<open>Object.prototype\<close> have none.
\<close>

fun own_props :: "jsval \<Rightarrow> (jsstring \<times> jsval) list" where
  "own_props (JObj proto props) = props"
| "own_props (JArr xs) = index_props 0 xs"
| "own_props (JStr s) = index_props 0 (map (\<lambda>c. JStr [c]) s)"
| "own_props v = []"

text \<open>
  Looking a key up along the prototype chain, from an object on: an own data property
  of the object or of one of its prototypes, or else the end of the chain, which is
  \<^verbatim>\<open>Object.prototype\<close> or null.
\<close>

datatype found = Found jsval | ReachedObjectPrototype | ReachedNull

fun find_prop :: "jsval \<Rightarrow> jsstring \<Rightarrow> found" where
  "find_prop (JObj proto props) key =
     (case map_of props key of Some v \<Rightarrow> Found v | None \<Rightarrow> find_prop proto key)"
| "find_prop JObjectPrototype key = ReachedObjectPrototype"
| "find_prop v key = ReachedNull"

text \<open>
  \<^verbatim>\<open>for (key in v)\<close> runs its body at least once: \<open>v\<close> or one of its prototypes has an
  enumerable property.
\<close>

fun has_enumerable :: "jsval \<Rightarrow> bool" where
  "has_enumerable (JObj proto props) = (props \<noteq> [] \<or> has_enumerable proto)"
| "has_enumerable (JArr xs) = (xs \<noteq> [])"
| "has_enumerable (JStr s) = (s \<noteq> [])"
| "has_enumerable v = False"

text \<open>
  \<^verbatim>\<open>v.hasOwnProperty\<close> is the method of \<^verbatim>\<open>Object.prototype\<close>: no data property of \<open>v\<close>
  or of a prototype hides it, and the chain does not end in null before it. No value
  here is a function, so a data property named \<^verbatim>\<open>hasOwnProperty\<close> cannot be called,
  and calling it throws a TypeError.
\<close>

fun hasOwnProperty_is_method :: "jsval \<Rightarrow> bool" where
  "hasOwnProperty_is_method (JObj proto props) =
     (find_prop (JObj proto props) (js ''hasOwnProperty'') = ReachedObjectPrototype)"
| "hasOwnProperty_is_method v = True"

text \<open>
  \<^verbatim>\<open>result[key]\<close> when it passes the test \<^verbatim>\<open>typeof result[key] === 'object' &&
  result[key] !== null\<close>. A data property found on the chain gives its value. When the
  chain reaches \<^verbatim>\<open>Object.prototype\<close>, the key \<^verbatim>\<open>__proto__\<close> is its accessor, whose getter
  returns the prototype of \<^verbatim>\<open>result\<close>; under any other key \<^verbatim>\<open>Object.prototype\<close> has a
  method or nothing, and neither is an \<^verbatim>\<open>'object'\<close>.
\<close>

fun composite_at :: "jsval \<Rightarrow> jsstring \<Rightarrow> jsval option" where
  "composite_at (JObj proto props) key =
     (case find_prop (JObj proto props) key of
        Found v \<Rightarrow> if is_composite v then Some v else None
      | ReachedObjectPrototype \<Rightarrow> if key = js ''__proto__'' then Some proto else None
      | ReachedNull \<Rightarrow> None)"
| "composite_at v key = None"

text \<open>
  A key is an array index when it is the decimal form, without a leading zero, of a
  whole number below \<open>2\<^sup>3\<^sup>2 - 1\<close>. A new property with such a key takes its place among
  the array indices; any other new property goes last.
\<close>

definition decimal_value :: "jsstring \<Rightarrow> nat" where
  "decimal_value s = foldl (\<lambda>n c. 10 * n + (c - 48)) 0 s"

definition array_index :: "jsstring \<Rightarrow> nat option" where
  "array_index key =
     (if key \<noteq> [] \<and> list_all (\<lambda>c. 48 \<le> c \<and> c \<le> 57) key \<and> (hd key \<noteq> 48 \<or> key = [48])
         \<and> decimal_value key < 4294967295
      then Some (decimal_value key) else None)"

definition precedes :: "jsstring \<Rightarrow> jsstring \<Rightarrow> bool" where
  "precedes key k =
     (case array_index key of
        None \<Rightarrow> False
      | Some n \<Rightarrow> (case array_index k of None \<Rightarrow> True | Some m \<Rightarrow> n < m))"

text \<open>
  Writing the own data property \<open>key\<close>: one that is there keeps its place, a new one is
  created at its place in the order.
\<close>

fun define_own :: "jsstring \<Rightarrow> jsval \<Rightarrow> (jsstring \<times> jsval) list \<Rightarrow> (jsstring \<times> jsval) list" where
  "define_own key x [] = [(key, x)]"
| "define_own key x ((k, old) # rest) =
     (if k = key then (key, x) # rest
      else if precedes key k then (key, x) # (k, old) # rest
      else (k, old) # define_own key x rest)"

text \<open>
  \<^verbatim>\<open>result[key] = x\<close>. The assignment writes an own data property, unless \<^verbatim>\<open>result\<close> has
  no own \<^verbatim>\<open>__proto__\<close> and the lookup of \<^verbatim>\<open>__proto__\<close> reaches the accessor of
  \<^verbatim>\<open>Object.prototype\<close>: then the setter runs, which makes an object or null the prototype
  of \<^verbatim>\<open>result\<close> and ignores any other value.
\<close>

fun assign :: "jsstring \<Rightarrow> jsval \<Rightarrow> jsval \<Rightarrow> jsval" where
  "assign key x (JObj proto props) =
     (if key = js ''__proto__'' \<and> find_prop (JObj proto props) key = ReachedObjectPrototype
      then (if is_composite x \<or> x = JNull then JObj x props else JObj proto props)
      else JObj proto (define_own key x props))"
| "assign key x v = v"

text \<open>
  \<^verbatim>\<open>mergeConfig\<close>: \<open>merge_loop\<close> is its \<^verbatim>\<open>for\<close> loop, with \<^verbatim>\<open>result\<close> as it stands and the
  own properties of \<^verbatim>\<open>userConfig\<close> still to visit (the loop skips the inherited ones).
  The first call of \<^verbatim>\<open>userConfig.hasOwnProperty\<close> throws when that is not the method.
  \<^verbatim>\<open>result\<close> starts as a new object with the own properties of \<^verbatim>\<open>defaultConfig\<close>.
\<close>

function mergeConfig :: "jsval \<Rightarrow> jsval \<Rightarrow> js_error + jsval"
  and merge_loop :: "jsval \<Rightarrow> (jsstring \<times> jsval) list \<Rightarrow> js_error + jsval"
where
  "mergeConfig defaultConfig userConfig =
     (if has_enumerable userConfig \<and> \<not> hasOwnProperty_is_method userConfig then Inl TypeError
      else merge_loop (plain_object (own_props defaultConfig)) (own_props userConfig))"
| "merge_loop result [] = Inr result"
| "merge_loop result ((key, v) # rest) =
     (case (if is_composite v then composite_at result key else None) of
        Some old \<Rightarrow>
          (case mergeConfig old v of
             Inl err \<Rightarrow> Inl err
           | Inr merged \<Rightarrow> merge_loop (assign key merged result) rest)
      | None \<Rightarrow> merge_loop (assign key v result) rest)"
  by pat_completeness auto
termination
proof (relation "measure (\<lambda>x. case x of
         Inl (d, u) \<Rightarrow> (case u of JStr s \<Rightarrow> Suc (length s) | _ \<Rightarrow> 2 * size u + 1)
       | Inr (r, kvs) \<Rightarrow>
           sum_list (map (\<lambda>(k, v). case v of JStr s \<Rightarrow> 1 | _ \<Rightarrow> 2 * size v + 2) kvs))")
  let ?c = "\<lambda>(k :: jsstring, v). case v of JStr s \<Rightarrow> 1 | _ \<Rightarrow> 2 * size v + (2::nat)"
  have elems: "sum_list (map ?c (index_props i xs)) \<le> 2 * size_list size xs" for i xs
  proof (induction xs arbitrary: i)
    case Nil
    show ?case by simp
  next
    case (Cons x xs)
    show ?case using Cons.IH[of "Suc i"] by (simp split: jsval.splits)
  qed
  have units: "sum_list (map ?c (index_props i (map (\<lambda>c. JStr [c]) s))) = length s" for i s
  proof (induction s arbitrary: i)
    case Nil
    show ?case by simp
  next
    case (Cons c s)
    show ?case using Cons.IH[of "Suc i"] by simp
  qed
  have props: "sum_list (map ?c kvs) \<le> 2 * size_list (size_prod (\<lambda>k. 0) size) kvs" for kvs
    by (induction kvs) (auto split: jsval.splits)
  show "wf (measure (\<lambda>x. case x of
         Inl (d, u) \<Rightarrow> (case u of JStr s \<Rightarrow> Suc (length s) | _ \<Rightarrow> 2 * size u + 1)
       | Inr (r, kvs) \<Rightarrow>
           sum_list (map (\<lambda>(k, v). case v of JStr s \<Rightarrow> 1 | _ \<Rightarrow> 2 * size v + 2) kvs)))"
    by simp
  show "(Inr (plain_object (own_props defaultConfig), own_props userConfig),
         Inl (defaultConfig, userConfig))
        \<in> measure (\<lambda>x. case x of
         Inl (d, u) \<Rightarrow> (case u of JStr s \<Rightarrow> Suc (length s) | _ \<Rightarrow> 2 * size u + 1)
       | Inr (r, kvs) \<Rightarrow>
           sum_list (map (\<lambda>(k, v). case v of JStr s \<Rightarrow> 1 | _ \<Rightarrow> 2 * size v + 2) kvs))"
    for defaultConfig userConfig
  proof (cases userConfig)
    case (JStr s)
    then show ?thesis using units[of 0 s] by simp
  next
    case (JArr xs)
    then show ?thesis using elems[of 0 xs] by simp
  next
    case (JObj proto kvs)
    then show ?thesis using props[of kvs] by simp
  qed simp_all
qed (auto split: if_splits jsval.splits)

text \<open>
  The value the loop stores at a key where \<^verbatim>\<open>result\<close> has the own property \<open>old\<close> and
  the override has \<open>v\<close>, or the error the merge of the two throws.
\<close>

definition merged_value :: "jsval \<Rightarrow> jsval \<Rightarrow> js_error + jsval" where
  "merged_value old v = (if is_composite v \<and> is_composite old then mergeConfig old v else Inr v)"





section \<open>URL patterns (shouldShowOnCurrentURL)\<close>


text \<open>\<^verbatim>\<open>s.includes(sub)\<close>: \<open>sub\<close> occurs in \<open>s\<close>.\<close>

fun starts_with :: "jsstring \<Rightarrow> jsstring \<Rightarrow> bool" where
  "starts_with s [] = True"
| "starts_with [] (p # ps) = False"
| "starts_with (c # cs) (p # ps) = (c = p \<and> starts_with cs ps)"

fun js_includes :: "jsstring \<Rightarrow> jsstring \<Rightarrow> bool" where
  "js_includes [] sub = (sub = [])"
| "js_includes (c # cs) sub = (starts_with (c # cs) sub \<or> js_includes cs sub)"



section \<open>Country detection (getCountry)\<close>

text \<open>
  The regular expression \<^verbatim>\<open>/"billing_country":\s*"([A-Z]{2})"/\<close>. \<open>match_here\<close> tries
  it at the start of the string: the literal \<^verbatim>\<open>"billing_country":\<close>, any white space
  (the next unit must be a double quote, so taking all of it loses no match), a double
  quote, two units in \<^verbatim>\<open>A-Z\<close>, a double quote; it returns the group. \<^verbatim>\<open>s.match(re)\<close>
  takes the leftmost match: \<open>billing_country_match\<close> tries every start from the left.
\<close>

definition billing_country_literal :: jsstring where
  "billing_country_literal = [34] @ js ''billing_country'' @ [34, 58]"

definition isUpper :: "nat \<Rightarrow> bool" where
  "isUpper c = (65 \<le> c \<and> c \<le> 90)"

definition match_here :: "jsstring \<Rightarrow> jsstring option" where
  "match_here s =
     (if starts_with s billing_country_literal
      then (case dropWhile isWhiteSpace (drop (length billing_country_literal) s) of
              q1 # a # b # q2 # rest \<Rightarrow>
                if q1 = 34 \<and> isUpper a \<and> isUpper b \<and> q2 = 34 then Some [a, b] else None
            | _ \<Rightarrow> None)
      else None)"

fun billing_country_match :: "jsstring \<Rightarrow> jsstring option" where
  "billing_country_match [] = match_here []"
| "billing_country_match (c # cs) =
     (case match_here (c # cs) of
        Some country \<Rightarrow> Some country
      | None \<Rightarrow> billing_country_match cs)"

text \<open>
  Session storage is the list of its entries in the order of \<^verbatim>\<open>sessionStorage.key(i)\<close>;
  reaching it can throw (storage denied to the page), which is \<open>Inl\<close>. \<^verbatim>\<open>getItem(key)\<close>
  is \<open>map_of\<close>. \<open>scan_storage\<close> is the \<^verbatim>\<open>for\<close> loop over all entries, with the entries
  still to visit as its second argument.
\<close>

type_synonym storage = "(jsstring \<times> jsstring) list"

fun scan_storage :: "storage \<Rightarrow> storage \<Rightarrow> jsstring option" where
  "scan_storage entries [] = None"
| "scan_storage entries ((key, v) # rest) =
     (case map_of entries key of
        None \<Rightarrow> scan_storage entries rest
      | Some item \<Rightarrow>
          if item \<noteq> [] \<and> js_includes item (js ''billing_country'')
          then (case billing_country_match item of
                  Some country \<Rightarrow> Some country
                | None \<Rightarrow> scan_storage entries rest)
          else scan_storage entries rest)"

text \<open>
  \<^verbatim>\<open>getCountryFromSessionStorage\<close>. \<^verbatim>\<open>JSON.parse\<close> is the host's; the code uses only
  whether it returns or throws, so it is an argument that says which strings parse. A
  throw inside the inner \<^verbatim>\<open>try\<close> is caught there and the function goes on to the scan;
  a throw of the storage itself is caught by the outer \<^verbatim>\<open>try\<close>.
\<close>

definition checkout_key :: jsstring where
  "checkout_key = js ''wc_stripe_checkout_fields''"

definition getCountryFromSessionStorage ::
  "(jsstring \<Rightarrow> bool) \<Rightarrow> js_error + storage \<Rightarrow> jsstring option" where
  "getCountryFromSessionStorage JSON_parses sessionStorage =
     (case sessionStorage of
        Inl err \<Rightarrow> None
      | Inr entries \<Rightarrow>
          (case (case map_of entries checkout_key of
                   None \<Rightarrow> None
                 | Some checkoutFields \<Rightarrow>
                     if checkoutFields = [] then None
                     else if JSON_parses checkoutFields
                     then billing_country_match checkoutFields
                     else None)
           of Some country \<Rightarrow> Some country
            | None \<Rightarrow> scan_storage entries entries))"

definition getCountryFromHeader :: "jsstring option" where
  "getCountryFromHeader = None"

text \<open>\<^verbatim>\<open>getCountry\<close>: the promise it returns. A string is truthy when it is not empty.\<close>

definition getCountry :: "(jsstring \<Rightarrow> bool) \<Rightarrow> js_error + storage \<Rightarrow> jsstring promise" where
  "getCountry JSON_parses sessionStorage =
     (case getCountryFromHeader of
        Some countryFromHeader \<Rightarrow>
          if countryFromHeader \<noteq> [] then Resolved countryFromHeader
          else (case getCountryFromSessionStorage JSON_parses sessionStorage of
                  Some countryFromSession \<Rightarrow>
                    if countryFromSession \<noteq> [] then Resolved countryFromSession
                    else Resolved (js ''US'')
                | None \<Rightarrow> Resolved (js ''US''))
      | None \<Rightarrow>
          (case getCountryFromSessionStorage JSON_parses sessionStorage of
             Some countryFromSession \<Rightarrow>
               if countryFromSession \<noteq> [] then Resolved countryFromSession
               else Resolved (js ''US'')
           | None \<Rightarrow> Resolved (js ''US'')))"

subsection \<open>The JSON grammar\<close>

text \<open>
  A recogniser for JSON texts (ECMA-404, the grammar \<^verbatim>\<open>JSON.parse\<close> accepts), for the
  examples: each function returns what is left of the input after the part it accepts.
  The first argument bounds the depth of the calls by its length; twice the length of
  the text is enough, since every call but the first follows a consumed unit.
\<close>

definition json_ws :: "jsstring \<Rightarrow> jsstring" where
  "json_ws s = dropWhile (\<lambda>c. c = 32 \<or> c = 9 \<or> c = 10 \<or> c = 13) s"

definition isDigit :: "nat \<Rightarrow> bool" where
  "isDigit c = (48 \<le> c \<and> c \<le> 57)"

definition isHex :: "nat \<Rightarrow> bool" where
  "isHex c = (isDigit c \<or> (65 \<le> c \<and> c \<le> 70) \<or> (97 \<le> c \<and> c \<le> 102))"

text \<open>The rest of a string after its opening quote: units, escapes, the closing quote.\<close>

fun json_string_rest :: "jsstring \<Rightarrow> jsstring option" where
  "json_string_rest [] = None"
| "json_string_rest [c] = (if c = 34 then Some [] else None)"
| "json_string_rest (c # e # cs) =
     (if c = 34 then Some (e # cs)
      else if c = 92 then
        (if e = 34 \<or> e = 92 \<or> e = 47 \<or> e = 98 \<or> e = 102 \<or> e = 110 \<or> e = 114 \<or> e = 116
         then json_string_rest cs
         else if e = 117 \<and> length cs \<ge> 4 \<and> list_all isHex (take 4 cs)
         then json_string_rest (drop 4 cs)
         else None)
      else if c < 32 then None
      else json_string_rest (e # cs))"

definition json_exponent :: "jsstring \<Rightarrow> jsstring option" where
  "json_exponent s =
     (case s of
        [] \<Rightarrow> Some s
      | e # r \<Rightarrow>
          if e = 101 \<or> e = 69 then
            (let digits = (case r of
                             [] \<Rightarrow> r
                           | sign # r' \<Rightarrow> if sign = 43 \<or> sign = 45 then r' else r)
             in if takeWhile isDigit digits = [] then None
                else Some (dropWhile isDigit digits))
          else Some s)"

definition json_fraction :: "jsstring \<Rightarrow> jsstring option" where
  "json_fraction s =
     (case s of
        [] \<Rightarrow> Some s
      | dot # r \<Rightarrow>
          if dot = 46 then
            (if takeWhile isDigit r = [] then None else json_exponent (dropWhile isDigit r))
          else json_exponent s)"

definition json_number :: "jsstring \<Rightarrow> jsstring option" where
  "json_number s =
     (case (case s of [] \<Rightarrow> s | m # r \<Rightarrow> if m = 45 then r else s) of
        [] \<Rightarrow> None
      | d # r \<Rightarrow>
          if d = 48 then json_fraction r
          else if isDigit d then json_fraction (dropWhile isDigit r)
          else None)"

fun json_value :: "jsstring \<Rightarrow> jsstring \<Rightarrow> jsstring option"
  and json_elements :: "jsstring \<Rightarrow> jsstring \<Rightarrow> jsstring option"
  and json_members :: "jsstring \<Rightarrow> jsstring \<Rightarrow> jsstring option"
where
  "json_value [] s = None"
| "json_value (u # fuel) s =
     (case s of
        [] \<Rightarrow> None
      | c # r \<Rightarrow>
          if c = 34 then json_string_rest r
          else if c = 123 then
            (case json_ws r of
               [] \<Rightarrow> None
             | c' # r' \<Rightarrow> if c' = 125 then Some r' else json_members fuel (c' # r'))
          else if c = 91 then
            (case json_ws r of
               [] \<Rightarrow> None
             | c' # r' \<Rightarrow> if c' = 93 then Some r' else json_elements fuel (c' # r'))
          else if starts_with s (js ''true'') then Some (drop 4 s)
          else if starts_with s (js ''false'') then Some (drop 5 s)
          else if starts_with s (js ''null'') then Some (drop 4 s)
          else json_number s)"
| "json_elements [] s = None"
| "json_elements (u # fuel) s =
     (case json_value fuel s of
        None \<Rightarrow> None
      | Some r \<Rightarrow>
          (case json_ws r of
             [] \<Rightarrow> None
           | c # r' \<Rightarrow>
               if c = 44 then json_elements fuel (json_ws r')
               else if c = 93 then Some r'
               else None))"
| "json_members [] s = None"
| "json_members (u # fuel) s =
     (case s of
        [] \<Rightarrow> None
      | q # r \<Rightarrow>
          if q \<noteq> 34 then None
          else
            (case json_string_rest r of
               None \<Rightarrow> None
             | Some r1 \<Rightarrow>
                 (case json_ws r1 of
                    [] \<Rightarrow> None
                  | colon # r2 \<Rightarrow>
                      if colon \<noteq> 58 then None
                      else
                        (case json_value fuel (json_ws r2) of
                           None \<Rightarrow> None
                         | Some r3 \<Rightarrow>
                             (case json_ws r3 of
                                [] \<Rightarrow> None
                              | c # r4 \<Rightarrow>
                                  if c = 44 then json_members fuel (json_ws r4)
                                  else if c = 125 then Some r4
                                  else None)))))"

definition JSON_valid :: "jsstring \<Rightarrow> bool" where
  "JSON_valid s =
     (case json_value (0 # 0 # s @ s) (json_ws s) of
        None \<Rightarrow> False
      | Some r \<Rightarrow> json_ws r = [])"

text \<open>Session entries for the examples: \<open>in_quotes s\<close> is \<open>s\<close> between double quotes.\<close>

definition in_quotes :: "string \<Rightarrow> jsstring" where
  "in_quotes s = [34] @ js s @ [34]"

definition json_country :: "string \<Rightarrow> jsstring" where
  "json_country code = js ''{'' @ in_quotes ''billing_country'' @ js '':'' @ in_quotes code @ js ''}''"

definition truncated_country :: "string \<Rightarrow> jsstring" where
  "truncated_country code = js ''{'' @ in_quotes ''billing_country'' @ js '':'' @ in_quotes code"

definition spaced_country :: "string \<Rightarrow> jsstring" where
  "spaced_country code = js ''{'' @ in_quotes ''billing_country'' @ js '' : '' @ in_quotes code @ js ''}''"

section \<open>Properties of the CSV parser\<close>

subsection \<open>Facts about trimming and splitting\<close>

lemma trim_Nil: "trim [] = []"
  by (simp add: trim_def)

lemma trim_no_leading: "trim s \<noteq> [] \<Longrightarrow> \<not> isWhiteSpace (hd (trim s))"
proof -
  assume ne: "trim s \<noteq> []"
  let ?d = "dropWhile isWhiteSpace s"
  have d: "?d \<noteq> []"
  proof
    assume a: "?d = []"
    have "trim s = rev (dropWhile isWhiteSpace (rev ?d))" by (simp add: trim_def)
    also have "\<dots> = []" by (simp only: a rev.simps dropWhile.simps)
    finally show False using ne by simp
  qed
  have "\<not> isWhiteSpace (hd ?d)" using d by (simp add: hd_dropWhile)
  moreover have "hd (trim s) = hd ?d"
  proof -
    obtain a r where ar: "?d = a # r" using d by (cases ?d) auto
    have na: "\<not> isWhiteSpace a" using ar hd_dropWhile[of isWhiteSpace s] by simp
    have "dropWhile isWhiteSpace (rev r @ [a]) = dropWhile isWhiteSpace (rev r) @ [a]
          \<or> dropWhile isWhiteSpace (rev r @ [a]) = [a]"
      using na by (simp add: dropWhile_append)
    then have "hd (rev (dropWhile isWhiteSpace (rev r @ [a]))) = a"
      by (auto simp: hd_rev)
    then show ?thesis by (simp add: trim_def ar)
  qed
  ultimately show ?thesis by simp
qed

lemma trim_no_trailing: "trim s \<noteq> [] \<Longrightarrow> \<not> isWhiteSpace (last (trim s))"
proof -
  assume ne: "trim s \<noteq> []"
  let ?e = "dropWhile isWhiteSpace (rev (dropWhile isWhiteSpace s))"
  have e: "?e \<noteq> []" using ne by (simp add: trim_def)
  have "\<not> isWhiteSpace (hd ?e)" using e by (simp add: hd_dropWhile)
  moreover have "last (trim s) = hd ?e" using e by (simp add: trim_def last_rev)
  ultimately show ?thesis by simp
qed

lemma dropWhile_unchanged: "xs = [] \<or> \<not> P (hd xs) \<Longrightarrow> dropWhile P xs = xs"
  by (cases xs) auto

lemma trim_fixed:
  assumes "s = [] \<or> (\<not> isWhiteSpace (hd s) \<and> \<not> isWhiteSpace (last s))"
  shows "trim s = s"
proof (cases "s = []")
  case True
  then show ?thesis by (simp add: trim_def)
next
  case False
  with assms have h: "\<not> isWhiteSpace (hd s)" and l: "\<not> isWhiteSpace (last s)" by auto
  have 1: "dropWhile isWhiteSpace s = s" using h by (simp add: dropWhile_unchanged)
  have 2: "dropWhile isWhiteSpace (rev s) = rev s"
    using l False by (intro dropWhile_unchanged) (simp add: hd_rev)
  show ?thesis by (simp add: trim_def 1 2)
qed

lemma trim_idem: "trim (trim s) = trim s"
  by (rule trim_fixed) (use trim_no_leading trim_no_trailing in blast)

lemma split_not_Nil: "split sep s \<noteq> []"
  by (cases s) (auto split: list.splits)

lemma split_append_sep: "split sep (s @ [sep]) = split sep s @ [[]]"
proof (induction s)
  case Nil
  show ?case by simp
next
  case (Cons c s)
  show ?case
  proof (cases "c = sep")
    case True
    then show ?thesis using Cons.IH by simp
  next
    case False
    obtain l ls where "split sep s = l # ls"
      using split_not_Nil[of sep s] by (cases "split sep s") auto
    then show ?thesis using False Cons.IH by simp
  qed
qed

lemma split_no_sep: "sep \<notin> set s \<Longrightarrow> split sep s = [s]"
  by (induction s) auto

lemma split_at_sep: "split sep (a @ sep # b) = split sep a @ split sep b"
proof (induction a)
  case Nil
  show ?case by simp
next
  case (Cons c a)
  obtain l ls where l: "split sep a = l # ls"
    using split_not_Nil[of sep a] by (cases "split sep a") auto
  show ?case using Cons.IH l by simp
qed

subsection \<open>Facts about the scan of one line\<close>

lemma scan_line_prefix: "\<exists>more. scan_line row q cur line = row @ more \<and> more \<noteq> []"
proof (induction line arbitrary: row q cur)
  case Nil
  show ?case by simp
next
  case (Cons c line)
  show ?case
  proof (cases "c = 34")
    case True
    then show ?thesis using Cons.IH[of row "\<not> q" cur] by simp
  next
    case c34: False
    show ?thesis
    proof (cases "c = 44 \<and> \<not> q")
      case True
      obtain more where "scan_line (row @ [trim cur]) q [] line = (row @ [trim cur]) @ more"
        using Cons.IH[of "row @ [trim cur]" q "[]"] by blast
      then show ?thesis using True c34 by simp
    next
      case False
      then show ?thesis using c34 Cons.IH[of row q "cur @ [c]"] by auto
    qed
  qed
qed

lemma scan_line_fields: "set (scan_line row q cur line) \<subseteq> set row \<union> range trim"
proof (induction line arbitrary: row q cur)
  case Nil
  show ?case by auto
next
  case (Cons c line)
  have a: "set (scan_line row (\<not> q) cur line) \<subseteq> set row \<union> range trim"
    by (rule Cons.IH)
  have "set (scan_line (row @ [trim cur]) q [] line) \<subseteq> set (row @ [trim cur]) \<union> range trim"
    by (rule Cons.IH)
  then have b: "set (scan_line (row @ [trim cur]) q [] line) \<subseteq> set row \<union> range trim"
    by auto
  have d: "set (scan_line row q (cur @ [c]) line) \<subseteq> set row \<union> range trim"
    by (rule Cons.IH)
  show ?case using a b d by (cases q) simp_all
qed

lemma scan_line_quoted:
  "34 \<notin> set quoted \<Longrightarrow>
   scan_line row False cur (34 # quoted @ 34 # rest) = scan_line row False (cur @ quoted) rest"
proof -
  assume nq: "34 \<notin> set quoted"
  have "scan_line row True cur (quoted @ 34 # rest) = scan_line row False (cur @ quoted) rest"
    using nq by (induction quoted arbitrary: cur) auto
  then show ?thesis by simp
qed

lemma scan_line_plain:
  "34 \<notin> set plain \<Longrightarrow> 44 \<notin> set plain \<Longrightarrow>
   scan_line row False cur (plain @ rest) = scan_line row False (cur @ plain) rest"
  by (induction plain arbitrary: cur) auto

lemma scan_line_plain_end:
  "34 \<notin> set plain \<Longrightarrow> 44 \<notin> set plain \<Longrightarrow>
   scan_line row False cur plain = row @ [trim (cur @ plain)]"
  using scan_line_plain[of plain row cur "[]"] by simp

lemma scan_line_open_quote:
  "34 \<notin> set tail \<Longrightarrow> scan_line row False cur (34 # tail) = row @ [trim (cur @ tail)]"
proof -
  assume nq: "34 \<notin> set tail"
  have "scan_line row True cur tail = row @ [trim (cur @ tail)]"
    using nq by (induction tail arbitrary: cur) auto
  then show ?thesis by simp
qed

lemma scan_line_comma:
  "scan_line row False cur (44 # rest) = scan_line (row @ [trim cur]) False [] rest"
  by simp

lemma scan_line_shift: "scan_line (r # row) q cur line = r # scan_line row q cur line"
  by (induction line arbitrary: row q cur) auto

lemma parse_line_not_Nil: "parse_line line \<noteq> []"
  using scan_line_prefix[of "[]" False "[]" line] by (auto simp: parse_line_def)

lemma parse_line_trimmed: "f \<in> set (parse_line line) \<Longrightarrow> trim f = f"
proof -
  assume "f \<in> set (parse_line line)"
  then have "f \<in> range trim"
    using scan_line_fields[of "[]" False "[]" line] by (auto simp: parse_line_def)
  then show ?thesis by (auto simp: trim_idem)
qed

lemma keep_row_parse_line: "keep_row (parse_line line) = (hd (parse_line line) \<noteq> [])"
proof -
  obtain f fs where p: "parse_line line = f # fs"
    using parse_line_not_Nil[of line] by (cases "parse_line line") auto
  then have "trim f = f" using parse_line_trimmed[of f line] by simp
  then show ?thesis by (simp add: keep_row_def p)
qed

lemma parseCSV_alt:
  "parseCSV csv = filter (\<lambda>row. hd row \<noteq> []) (map parse_line (split 10 csv))"
  unfolding parseCSV_def by (rule filter_cong) (auto simp: keep_row_parse_line)

lemma parse_line_empty: "parse_line [] = [[]]"
  by (simp add: parse_line_def trim_def)

lemma parseCSV_trailing_newline: "parseCSV (csv @ [10]) = parseCSV csv"
  by (simp add: parseCSV_def split_append_sep parse_line_empty keep_row_def trim_def)

lemma parseCSV_trailing_newlines: "parseCSV (csv @ replicate n 10) = parseCSV csv"
proof (induction n)
  case 0
  show ?case by simp
next
  case (Suc n)
  have "csv @ replicate (Suc n) 10 = (csv @ replicate n 10) @ [10]"
    by (simp add: replicate_append_same)
  then show ?case using Suc.IH parseCSV_trailing_newline[of "csv @ replicate n 10"] by simp
qed


lemma parseCSV_one_line:
  "10 \<notin> set line \<Longrightarrow>
   parseCSV line = (if hd (parse_line line) = [] then [] else [parse_line line])"
  by (simp add: parseCSV_alt split_no_sep)

lemma parseCSV_lines: "parseCSV (a @ 10 # b) = parseCSV a @ parseCSV b"
  by (simp add: parseCSV_def split_at_sep)

subsection \<open>Claim C7\<close>

text \<open>
  Claim C7. \<^verbatim>\<open>parseCSV\<close> cuts the input at every line feed and reads each line on its
  own: the rows of a text with a line feed in it are the rows of the part before it
  followed by the rows of the part after it, and a line without a line feed gives the
  one row of its scan, or no row when the first field of that row is empty. So every
  row has at least one field and a non-empty first field, and every field is trimmed (it
  is empty or neither starts nor ends with white space). In the scan of a line a stretch
  between two double quotes goes into the current field as it is, commas included, and
  so does everything after a double quote that is not closed, up to the end of the
  line; outside quotes the other characters go into the current field, a comma ends
  the field, and the end of the line ends the last field. Line feeds at the end of the
  input add no rows, and the one-line input of the specification gives one row of four
  fields.
\<close>

theorem C7_parseCSV:
  "parseCSV (before @ 10 # after) = parseCSV before @ parseCSV after
   \<and> (10 \<notin> set line \<longrightarrow>
         parseCSV line = (if hd (parse_line line) = [] then [] else [parse_line line]))
   \<and> (\<forall>row \<in> set (parseCSV csv). row \<noteq> [] \<and> hd row \<noteq> [] \<and>
         (\<forall>f \<in> set row. trim f = f \<and> (f = [] \<or> (\<not> isWhiteSpace (hd f) \<and> \<not> isWhiteSpace (last f)))))
   \<and> (34 \<notin> set quoted \<longrightarrow>
         scan_line row False cur (34 # quoted @ 34 # rest) = scan_line row False (cur @ quoted) rest)
   \<and> (34 \<notin> set quoted \<longrightarrow>
         scan_line row False cur (34 # quoted) = row @ [trim (cur @ quoted)])
   \<and> (34 \<notin> set plain \<and> 44 \<notin> set plain \<longrightarrow>
         scan_line row False cur (plain @ rest) = scan_line row False (cur @ plain) rest
       \<and> scan_line row False cur (plain @ 44 # rest)
           = scan_line (row @ [trim (cur @ plain)]) False [] rest
       \<and> scan_line row False cur plain = row @ [trim (cur @ plain)])
   \<and> parse_line line = scan_line [] False [] line
   \<and> parseCSV (csv @ replicate n 10) = parseCSV csv
   \<and> parseCSV (js ''US,4th of July,2025-07-04,2025-07-04'' @ [10])
       = [[js ''US'', js ''4th of July'', js ''2025-07-04'', js ''2025-07-04'']]"
proof -
  have rows: "\<forall>row \<in> set (parseCSV csv). row \<noteq> [] \<and> hd row \<noteq> [] \<and>
         (\<forall>f \<in> set row. trim f = f \<and> (f = [] \<or> (\<not> isWhiteSpace (hd f) \<and> \<not> isWhiteSpace (last f))))"
  proof
    fix row assume "row \<in> set (parseCSV csv)"
    then obtain line where r: "row = parse_line line" and h: "hd row \<noteq> []"
      by (auto simp: parseCSV_alt)
    have ne: "row \<noteq> []" using r parse_line_not_Nil by simp
    have "\<forall>f \<in> set row. trim f = f \<and> (f = [] \<or> (\<not> isWhiteSpace (hd f) \<and> \<not> isWhiteSpace (last f)))"
    proof
      fix f assume "f \<in> set row"
      then have t: "trim f = f" using r parse_line_trimmed by simp
      then show "trim f = f \<and> (f = [] \<or> (\<not> isWhiteSpace (hd f) \<and> \<not> isWhiteSpace (last f)))"
        using trim_no_leading[of f] trim_no_trailing[of f] by auto
    qed
    then show "row \<noteq> [] \<and> hd row \<noteq> [] \<and>
         (\<forall>f \<in> set row. trim f = f \<and> (f = [] \<or> (\<not> isWhiteSpace (hd f) \<and> \<not> isWhiteSpace (last f))))"
      using ne h by simp
  qed
  have one: "10 \<notin> set line \<longrightarrow>
         parseCSV line = (if hd (parse_line line) = [] then [] else [parse_line line])"
    using parseCSV_one_line[of line] by blast
  have ex: "parseCSV (js ''US,4th of July,2025-07-04,2025-07-04'' @ [10])
       = [[js ''US'', js ''4th of July'', js ''2025-07-04'', js ''2025-07-04'']]"
    by (simp add: parseCSV_def js_def parse_line_def keep_row_def trim_def isWhiteSpace_def)
  have comma: "34 \<notin> set plain \<and> 44 \<notin> set plain \<longrightarrow>
         scan_line row False cur (plain @ rest) = scan_line row False (cur @ plain) rest
       \<and> scan_line row False cur (plain @ 44 # rest)
           = scan_line (row @ [trim (cur @ plain)]) False [] rest
       \<and> scan_line row False cur plain = row @ [trim (cur @ plain)]"
    by (simp add: scan_line_plain scan_line_plain_end)
  have quote: "34 \<notin> set quoted \<longrightarrow>
         scan_line row False cur (34 # quoted) = row @ [trim (cur @ quoted)]"
    using scan_line_open_quote[of quoted row cur] by blast
  show ?thesis
    using parseCSV_lines[of before after] one rows scan_line_quoted[of quoted row cur rest] comma
      quote parse_line_def[of line] parseCSV_trailing_newlines[of csv n] ex
    by blast
qed

text \<open>
  Three lines, the second with an empty first field, and a blank line at the end: two
  rows. The rows are put together from the rows of the single lines.
\<close>

theorem C7_parseCSV_witness:
  "parseCSV (js '' a ,b c '' @ 10 # js '' ,dropped'' @ 10 #
              (js ''DE , '' @ 34 # js ''Sale, Big!'' @ 34 # js '' ,x'') @ 10 # [])
     = [[js ''a'', js ''b c''], [js ''DE'', js ''Sale, Big!'', js ''x'']]
   \<and> parseCSV (js ''r1'' @ 10 # js ''r2'' @ 10 # js ''r3'') = [[js ''r1''], [js ''r2''], [js ''r3'']]
   \<and> parseCSV (js ''r1'' @ replicate 2 10) = [[js ''r1'']]"
proof -
  let ?l1 = "js '' a ,b c ''" and ?l2 = "js '' ,dropped''"
  let ?l3 = "js ''DE , '' @ 34 # js ''Sale, Big!'' @ 34 # js '' ,x''"
  have lines: "parseCSV (a @ 10 # b) = parseCSV a @ parseCSV b" for a b
    using C7_parseCSV[where before = a and after = b] by blast
  have one: "parseCSV l = (if hd (parse_line l) = [] then [] else [parse_line l])"
    if "10 \<notin> set l" for l
    using C7_parseCSV[where line = l] that by blast
  have p: "parse_line ?l1 = [js ''a'', js ''b c'']" "parse_line ?l2 = [[], js ''dropped'']"
    "parse_line ?l3 = [js ''DE'', js ''Sale, Big!'', js ''x'']"
    "parse_line (js ''r1'') = [js ''r1'']" "parse_line (js ''r2'') = [js ''r2'']"
    "parse_line (js ''r3'') = [js ''r3'']" "parse_line [] = [[]]"
    by (simp_all add: js_def parse_line_def trim_def isWhiteSpace_def)
  have e1: "parseCSV ?l1 = [[js ''a'', js ''b c'']]"
    by (subst one) (simp_all add: p, simp_all add: js_def)
  have e2: "parseCSV ?l2 = []"
    by (subst one) (simp_all add: p, simp_all add: js_def)
  have e3: "parseCSV ?l3 = [[js ''DE'', js ''Sale, Big!'', js ''x'']]"
    by (subst one) (simp_all add: p, simp_all add: js_def)
  have e4: "parseCSV [] = []"
    by (subst one) (simp_all add: p)
  have r1: "parseCSV (js ''r1'') = [[js ''r1'']]"
    by (subst one) (simp_all add: p, simp_all add: js_def)
  have r2: "parseCSV (js ''r2'') = [[js ''r2'']]"
    by (subst one) (simp_all add: p, simp_all add: js_def)
  have r3: "parseCSV (js ''r3'') = [[js ''r3'']]"
    by (subst one) (simp_all add: p, simp_all add: js_def)
  have 1: "parseCSV (?l1 @ 10 # ?l2 @ 10 # ?l3 @ 10 # [])
            = parseCSV ?l1 @ parseCSV ?l2 @ parseCSV ?l3 @ parseCSV []"
    by (simp only: lines)
  have 2: "parseCSV (js ''r1'' @ 10 # js ''r2'' @ 10 # js ''r3'')
            = parseCSV (js ''r1'') @ parseCSV (js ''r2'') @ parseCSV (js ''r3'')"
    by (simp only: lines)
  have 3: "parseCSV (js ''r1'' @ replicate 2 10) = parseCSV (js ''r1'')"
    using C7_parseCSV[where csv = "js ''r1''" and n = 2] by blast
  show ?thesis unfolding 1 2 3 e1 e2 e3 e4 r1 r2 r3 by simp
qed
section \<open>Properties of the promo text selection\<close>

lemma promo_loop_none:
  "\<forall>row \<in> set rows. field row 0 \<noteq> Some cc \<Longrightarrow> promo_loop c cc rows = Some (defaultText c)"
  by (induction rows) auto

lemma promo_loop_first:
  "i < length rows \<Longrightarrow> field (rows ! i) 0 = Some cc \<Longrightarrow>
   \<forall>j < i. field (rows ! j) 0 \<noteq> Some cc \<Longrightarrow>
   promo_loop c cc rows = field (rows ! i) 1"
proof (induction rows arbitrary: i)
  case Nil
  then show ?case by simp
next
  case (Cons r rows)
  show ?case
  proof (cases i)
    case 0
    then show ?thesis using Cons.prems by simp
  next
    case (Suc k)
    have r: "field r 0 \<noteq> Some cc" using Cons.prems(3) Suc by auto
    have "\<forall>j < k. field (rows ! j) 0 \<noteq> Some cc"
      using Cons.prems(3) Suc by auto
    then have "promo_loop c cc rows = field (rows ! k) 1"
      using Cons.IH[of k] Cons.prems Suc by simp
    then show ?thesis using r Suc by simp
  qed
qed

lemma promo_loop_dates:
  "promo_loop c cc (map (take 2) rows) = promo_loop c cc rows"
  by (induction rows) (auto simp: field_def)

text \<open>
  Claim C6. With no rows, or with at most the header row, \<^verbatim>\<open>getPromoText\<close> returns the
  configured default text. Otherwise the first row at an index from 1 on whose first
  field is the country code decides: the result is that row's second field. When no row
  from index 1 on matches, the result is the default text, whatever the header row
  holds. Neither the current date nor the date fields of the rows (anything past the
  second field) change the result.
\<close>

theorem C6_getPromoText:
  "getPromoText c cc date None = Some (defaultText c)
   \<and> (length rows \<le> 1 \<longrightarrow> getPromoText c cc date (Some rows) = Some (defaultText c))
   \<and> (1 \<le> i \<and> i < length rows \<and> field (rows ! i) 0 = Some cc
        \<and> (\<forall>j. 1 \<le> j \<and> j < i \<longrightarrow> field (rows ! j) 0 \<noteq> Some cc)
       \<longrightarrow> getPromoText c cc date (Some rows) = field (rows ! i) 1)
   \<and> ((\<forall>j. 1 \<le> j \<and> j < length rows \<longrightarrow> field (rows ! j) 0 \<noteq> Some cc)
       \<longrightarrow> getPromoText c cc date (Some rows) = Some (defaultText c))
   \<and> getPromoText c cc date' (Some (map (take 2) rows)) = getPromoText c cc date (Some rows)"
proof -
  have first: "getPromoText c cc date (Some rows) = field (rows ! i) 1"
    if h: "1 \<le> i" "i < length rows" "field (rows ! i) 0 = Some cc"
      "\<forall>j. 1 \<le> j \<and> j < i \<longrightarrow> field (rows ! j) 0 \<noteq> Some cc"
  proof -
    have "promo_loop c cc (drop 1 rows) = field (drop 1 rows ! (i - 1)) 1"
    proof (rule promo_loop_first)
      show "i - 1 < length (drop 1 rows)" using h by simp
      show "field (drop 1 rows ! (i - 1)) 0 = Some cc" using h by simp
      show "\<forall>j<i - 1. field (drop 1 rows ! j) 0 \<noteq> Some cc"
      proof (intro allI impI)
        fix j assume "j < i - 1"
        then have "1 \<le> Suc j \<and> Suc j < i" by simp
        then have "field (rows ! Suc j) 0 \<noteq> Some cc" using h(4) by blast
        moreover have "Suc j < length rows" using \<open>j < i - 1\<close> h by simp
        ultimately show "field (drop 1 rows ! j) 0 \<noteq> Some cc" by simp
      qed
    qed
    then show ?thesis using h by (simp add: getPromoText_def)
  qed
  have none: "getPromoText c cc date (Some rows) = Some (defaultText c)"
    if h: "\<forall>j. 1 \<le> j \<and> j < length rows \<longrightarrow> field (rows ! j) 0 \<noteq> Some cc"
  proof -
    have "\<forall>row \<in> set (drop 1 rows). field row 0 \<noteq> Some cc"
    proof
      fix row assume "row \<in> set (drop 1 rows)"
      then obtain k where k: "k < length (drop 1 rows)" "row = drop 1 rows ! k"
        by (auto simp: in_set_conv_nth)
      then have "row = rows ! Suc k" "Suc k < length rows" by auto
      then show "field row 0 \<noteq> Some cc" using h by auto
    qed
    then show ?thesis by (simp add: getPromoText_def promo_loop_none)
  qed
  have dates: "getPromoText c cc date' (Some (map (take 2) rows)) = getPromoText c cc date (Some rows)"
    using promo_loop_dates[of c cc "drop 1 rows"]
    by (simp add: getPromoText_def drop_map)
  show ?thesis using first none dates by (simp add: getPromoText_def)
qed

theorem C6_getPromoText_witness:
  "getPromoText default_config (js ''DE'') (0::nat) (Some getFallbackPromoData)
     = Some (js ''German Unity Day Special'')
   \<and> getPromoText default_config (js ''ZZ'') (0::nat) (Some getFallbackPromoData)
     = Some (js ''Self-care Special'')
   \<and> getPromoText default_config (js ''Country'') (0::nat) (Some getFallbackPromoData)
     = Some (js ''Self-care Special'')
   \<and> getPromoText default_config (js ''DE'') (0::nat) (Some [[js ''DE'', js ''header'']])
     = Some (js ''Self-care Special'')
   \<and> getPromoText default_config (js ''DE'') (1::nat)
        (Some [[js ''Country''], [js ''DE'', js ''a'', js ''bad date''], [js ''DE'', js ''b'']])
     = Some (js ''a'')"
  using C6_getPromoText[of default_config "js ''DE''" "0::nat" "[[js ''DE'', js ''header'']]" 1 "1::nat"]
    C6_getPromoText[of default_config "js ''DE''" "0::nat" getFallbackPromoData 2 "1::nat"]
  by (simp add: getPromoText_def getFallbackPromoData_def default_config_def field_def js_def)

section \<open>Properties of the countdown timer\<close>


lemma ulp_small: "n < 9007199254740992 \<Longrightarrow> ulp n = 1"
  by (subst ulp.simps) simp

lemma ulp_next: "ulp 9007199254740992 = 2"
  by (subst ulp.simps) (simp add: ulp_small)

lemma round_nat_exact: "n \<le> 9007199254740992 \<Longrightarrow> round_nat n = n"
proof (cases "n < 9007199254740992")
  case True
  then show ?thesis by (simp add: round_nat_def ulp_small)
next
  case False
  assume "n \<le> 9007199254740992"
  then have n: "n = 9007199254740992" using False by simp
  show ?thesis unfolding n by (simp add: round_nat_def ulp_next)
qed

lemma to_double_exact: "0 \<le> i \<Longrightarrow> i \<le> 9007199254740992 \<Longrightarrow> to_double i = i"
  by (simp add: to_double_def round_nat_exact)

lemma decrement_exact: "0 < x \<Longrightarrow> x \<le> 9007199254740992 \<Longrightarrow> decrement x = x - 1"
  by (simp add: decrement_def to_double_exact)

lemma decrement_rounds: "decrement 9007199254740994 = 9007199254740992"
proof -
  have u: "ulp 9007199254740993 = 2"
    by (subst ulp.simps) (simp add: ulp_small)
  show ?thesis by (simp add: decrement_def to_double_def round_nat_def u)
qed







text \<open>
  Claim C1. For a state whose minutes are a whole number from 0 to \<open>2\<^sup>5\<^sup>3\<close>
  (9007199254740992) and whose seconds are a whole number from 0 to 59, one tick
  decrements the seconds when they are positive, else decrements the minutes and sets
  the seconds to 59 when the minutes are positive, else (at 0:00) runs the expiration
  handler and leaves both counters at 0. No counter becomes negative and the seconds
  stay within 0 to 59. From (0,1) the tick gives (0,0), from (1,0) it gives (0,59).
\<close>

theorem C1_tick:
  "0 \<le> minutes w \<and> minutes w \<le> 9007199254740992 \<and> 0 \<le> seconds w \<and> seconds w \<le> 59 \<longrightarrow>
     (0 < seconds w \<longrightarrow>
        seconds (tick e w) = seconds w - 1 \<and> minutes (tick e w) = minutes w
        \<and> timeouts (tick e w) = timeouts w)
   \<and> (seconds w = 0 \<and> 0 < minutes w \<longrightarrow>
        minutes (tick e w) = minutes w - 1 \<and> seconds (tick e w) = 59
        \<and> timeouts (tick e w) = timeouts w)
   \<and> (seconds w = 0 \<and> minutes w = 0 \<longrightarrow>
        tick e w = updateTimerDisplay (Some e) (handleTimerExpiration w)
        \<and> minutes (tick e w) = 0 \<and> seconds (tick e w) = 0)
   \<and> 0 \<le> minutes (tick e w) \<and> 0 \<le> seconds (tick e w) \<and> seconds (tick e w) \<le> 59
   \<and> (minutes w = 0 \<and> seconds w = 1 \<longrightarrow> minutes (tick e w) = 0 \<and> seconds (tick e w) = 0)
   \<and> (minutes w = 1 \<and> seconds w = 0 \<longrightarrow> minutes (tick e w) = 0 \<and> seconds (tick e w) = 59)"
proof
  assume a: "0 \<le> minutes w \<and> minutes w \<le> 9007199254740992 \<and> 0 \<le> seconds w \<and> seconds w \<le> 59"
  have s: "decrement (seconds w) = seconds w - 1" if "0 < seconds w"
    using a that by (intro decrement_exact) simp_all
  have m: "decrement (minutes w) = minutes w - 1" if "0 < minutes w"
    using a that by (intro decrement_exact) simp_all
  have d: "decrement 1 = 0" by (simp add: decrement_exact)
  show "(0 < seconds w \<longrightarrow>
        seconds (tick e w) = seconds w - 1 \<and> minutes (tick e w) = minutes w
        \<and> timeouts (tick e w) = timeouts w)
   \<and> (seconds w = 0 \<and> 0 < minutes w \<longrightarrow>
        minutes (tick e w) = minutes w - 1 \<and> seconds (tick e w) = 59
        \<and> timeouts (tick e w) = timeouts w)
   \<and> (seconds w = 0 \<and> minutes w = 0 \<longrightarrow>
        tick e w = updateTimerDisplay (Some e) (handleTimerExpiration w)
        \<and> minutes (tick e w) = 0 \<and> seconds (tick e w) = 0)
   \<and> 0 \<le> minutes (tick e w) \<and> 0 \<le> seconds (tick e w) \<and> seconds (tick e w) \<le> 59
   \<and> (minutes w = 0 \<and> seconds w = 1 \<longrightarrow> minutes (tick e w) = 0 \<and> seconds (tick e w) = 0)
   \<and> (minutes w = 1 \<and> seconds w = 0 \<longrightarrow> minutes (tick e w) = 0 \<and> seconds (tick e w) = 59)"
    using a s m d by (simp add: tick_def updateTimerDisplay_def handleTimerExpiration_def)
qed

theorem C1_tick_witness:
  "minutes (tick 7 (example_world 0 1)) = 0 \<and> seconds (tick 7 (example_world 0 1)) = 0
   \<and> minutes (tick 7 (example_world 1 0)) = 0 \<and> seconds (tick 7 (example_world 1 0)) = 59
   \<and> minutes (tick 7 (example_world 3 15)) = 3 \<and> seconds (tick 7 (example_world 3 15)) = 14
   \<and> minutes (tick 7 (example_world 9007199254740992 0)) = 9007199254740991
   \<and> minutes (tick 7 (example_world 0 0)) = 0 \<and> seconds (tick 7 (example_world 0 0)) = 0"
proof -
  have f: "minutes (example_world m s) = m" "seconds (example_world m s) = s" for m s
    by (simp_all add: example_world_def)
  show ?thesis
    using C1_tick[of "example_world 0 1" 7] C1_tick[of "example_world 1 0" 7]
      C1_tick[of "example_world 3 15" 7] C1_tick[of "example_world 0 0" 7]
      C1_tick[of "example_world 9007199254740992 0" 7]
    by (simp add: f updateTimerDisplay_def handleTimerExpiration_def)
qed

text \<open>
  Without the bound on the minutes the statement fails. Above \<open>2\<^sup>5\<^sup>3\<close> not every whole
  number is a double, and \<^verbatim>\<open>minutes--\<close> rounds: from \<open>2\<^sup>5\<^sup>3\<close> + 2 minutes and 0 seconds
  one tick gives \<open>2\<^sup>5\<^sup>3\<close> minutes, two less.
\<close>

theorem C1_counterexample:
  "minutes (tick 7 (example_world 9007199254740994 0)) = 9007199254740992
   \<and> minutes (tick 7 (example_world 9007199254740994 0))
       \<noteq> minutes (example_world 9007199254740994 0) - 1
   \<and> seconds (tick 7 (example_world 9007199254740994 0)) = 59"
  by (simp add: tick_def example_world_def updateTimerDisplay_def decrement_rounds)









section \<open>Properties of the promo data cache\<close>

lemma cache_hit_fresh:
  "promoData c = Some rows \<Longrightarrow> lastFetched c = Some t \<Longrightarrow> t \<noteq> 0 \<Longrightarrow>
   cache_hit now c = (if now - t < 3600000 then Some rows else None)"
  by (simp add: cache_hit_def)

lemma cache_hit_later:
  "cache_hit now c = None \<Longrightarrow> now \<le> now' \<Longrightarrow> cache_hit now' c = None"
  by (auto simp: cache_hit_def split: option.splits if_splits)

lemma fetchPromoData_hit:
  "cache_hit (nowAtCall env) c = Some rows \<Longrightarrow> fetchPromoData cf env c = (Resolved rows, c, [])"
  by (simp add: fetchPromoData_def)

lemma fetchPromoData_no_url:
  "cache_hit (nowAtCall env) c = None \<Longrightarrow> dataSourceUrl cf = None \<or> dataSourceUrl cf = Some [] \<Longrightarrow>
   fetchPromoData cf env c = (Resolved getFallbackPromoData, c, [])"
  by (auto simp: fetchPromoData_def)

lemma fetchPromoData_log:
  "cache_hit (nowAtCall env) c = None \<Longrightarrow> dataSourceUrl cf = Some url \<Longrightarrow> url \<noteq> [] \<Longrightarrow>
   snd (snd (fetchPromoData cf env c)) = [url]"
  by (simp add: fetchPromoData_def Let_def)

lemma fetchPromoData_fails:
  "cache_hit (nowAtCall env) c = None \<Longrightarrow> dataSourceUrl cf = Some url \<Longrightarrow> url \<noteq> [] \<Longrightarrow>
   fetch_fails env url \<Longrightarrow>
   fetchPromoData cf env c = (Resolved getFallbackPromoData, c, [url])"
  by (auto simp: fetchPromoData_def fetch_fails_def then_promise_def catch_promise_def Let_def
      split: promise.splits)

lemma fetchPromoData_miss:
  "cache_hit (nowAtCall env) c = None \<Longrightarrow>
   fst (fetchPromoData cf env c) = fst (fetchPromoData cf env \<lparr>promoData = None, lastFetched = None\<rparr>)
   \<and> snd (snd (fetchPromoData cf env c))
       = snd (snd (fetchPromoData cf env \<lparr>promoData = None, lastFetched = None\<rparr>))"
  by (simp add: fetchPromoData_def cache_hit_def Let_def split: option.splits)

lemma fetchPromoData_resolves: "\<exists>rows. fst (fetchPromoData cf env c) = Resolved rows"
  by (auto simp: fetchPromoData_def then_promise_def catch_promise_def Let_def
      split: option.splits promise.splits)

lemma fetchPromoData_no_url_cache:
  "dataSourceUrl cf = None \<or> dataSourceUrl cf = Some [] \<Longrightarrow>
   snd (fetchPromoData cf env c) = (c, [])"
  by (auto simp: fetchPromoData_def split: option.splits)

text \<open>
  The cache counts as filled when its rows are not null and its time stamp is truthy,
  that is, not null and not 0. For such a cache a call less than 3,600,000 ms after the
  time stamp returns the cached rows, leaves the cache as it is and fetches nothing. A
  call 3,600,000 ms or more after it returns what a call with an empty cache returns
  and fetches what that call fetches: the configured URL when there is one, and the
  fallback rows without a fetch when there is none. At 59 minutes the cached rows are
  returned, at 61 minutes the URL is fetched again.
\<close>

lemma cache_freshness:
  "promoData c = Some rows \<and> lastFetched c = Some t \<and> t \<noteq> 0 \<longrightarrow>
     (nowAtCall env - t < 3600000 \<longrightarrow> fetchPromoData cf env c = (Resolved rows, c, []))
   \<and> (3600000 \<le> nowAtCall env - t \<longrightarrow>
         fst (fetchPromoData cf env c)
           = fst (fetchPromoData cf env \<lparr>promoData = None, lastFetched = None\<rparr>)
       \<and> snd (snd (fetchPromoData cf env c))
           = snd (snd (fetchPromoData cf env \<lparr>promoData = None, lastFetched = None\<rparr>))
       \<and> (dataSourceUrl cf = Some url \<and> url \<noteq> [] \<longrightarrow>
             snd (snd (fetchPromoData cf env c)) = [url])
       \<and> (dataSourceUrl cf = None \<or> dataSourceUrl cf = Some [] \<longrightarrow>
             fetchPromoData cf env c = (Resolved getFallbackPromoData, c, [])))
   \<and> (nowAtCall env = t + 59 * 60000 \<longrightarrow> fetchPromoData cf env c = (Resolved rows, c, []))
   \<and> (nowAtCall env = t + 61 * 60000 \<and> dataSourceUrl cf = Some url \<and> url \<noteq> [] \<longrightarrow>
         snd (snd (fetchPromoData cf env c)) = [url])"
proof (intro impI)
  assume a: "promoData c = Some rows \<and> lastFetched c = Some t \<and> t \<noteq> 0"
  have hit: "cache_hit (nowAtCall env) c = (if nowAtCall env - t < 3600000 then Some rows else None)"
    using a by (simp add: cache_hit_fresh)
  have fresh: "fetchPromoData cf env c = (Resolved rows, c, [])" if "nowAtCall env - t < 3600000"
    using that hit by (simp add: fetchPromoData_hit)
  have stale: "cache_hit (nowAtCall env) c = None" if "3600000 \<le> nowAtCall env - t"
    using that hit by simp
  have s1: "fst (fetchPromoData cf env c)
           = fst (fetchPromoData cf env \<lparr>promoData = None, lastFetched = None\<rparr>)
       \<and> snd (snd (fetchPromoData cf env c))
           = snd (snd (fetchPromoData cf env \<lparr>promoData = None, lastFetched = None\<rparr>))"
    if "3600000 \<le> nowAtCall env - t"
    using stale[OF that] by (rule fetchPromoData_miss)
  have s2: "snd (snd (fetchPromoData cf env c)) = [url]"
    if "3600000 \<le> nowAtCall env - t" "dataSourceUrl cf = Some url \<and> url \<noteq> []"
    using stale[OF that(1)] that(2) by (simp add: fetchPromoData_log)
  have s3: "fetchPromoData cf env c = (Resolved getFallbackPromoData, c, [])"
    if "3600000 \<le> nowAtCall env - t" "dataSourceUrl cf = None \<or> dataSourceUrl cf = Some []"
    using stale[OF that(1)] that(2) by (rule fetchPromoData_no_url)
  have m59: "fetchPromoData cf env c = (Resolved rows, c, [])" if "nowAtCall env = t + 59 * 60000"
    using that by (intro fresh) simp
  have m61: "snd (snd (fetchPromoData cf env c)) = [url]"
    if "nowAtCall env = t + 61 * 60000 \<and> dataSourceUrl cf = Some url \<and> url \<noteq> []"
    using that by (intro s2) simp_all
  show "(nowAtCall env - t < 3600000 \<longrightarrow> fetchPromoData cf env c = (Resolved rows, c, []))
   \<and> (3600000 \<le> nowAtCall env - t \<longrightarrow>
         fst (fetchPromoData cf env c)
           = fst (fetchPromoData cf env \<lparr>promoData = None, lastFetched = None\<rparr>)
       \<and> snd (snd (fetchPromoData cf env c))
           = snd (snd (fetchPromoData cf env \<lparr>promoData = None, lastFetched = None\<rparr>))
       \<and> (dataSourceUrl cf = Some url \<and> url \<noteq> [] \<longrightarrow>
             snd (snd (fetchPromoData cf env c)) = [url])
       \<and> (dataSourceUrl cf = None \<or> dataSourceUrl cf = Some [] \<longrightarrow>
             fetchPromoData cf env c = (Resolved getFallbackPromoData, c, [])))
   \<and> (nowAtCall env = t + 59 * 60000 \<longrightarrow> fetchPromoData cf env c = (Resolved rows, c, []))
   \<and> (nowAtCall env = t + 61 * 60000 \<and> dataSourceUrl cf = Some url \<and> url \<noteq> [] \<longrightarrow>
         snd (snd (fetchPromoData cf env c)) = [url])"
    using fresh s1 s2 s3 m59 m61 by blast
qed

lemma cache_freshness_example:
  "fetchPromoData example_config
      \<lparr>nowAtCall = 1700000000000 + 59 * 60000, nowAtStore = 0, fetch = network_up\<rparr>
      (example_cache 1700000000000)
     = (Resolved [[js ''Country'', js ''PromoText''], [js ''FR'', js ''Cached'']],
        example_cache 1700000000000, [])
   \<and> snd (snd (fetchPromoData example_config
      \<lparr>nowAtCall = 1700000000000 + 61 * 60000, nowAtStore = 0, fetch = network_up\<rparr>
      (example_cache 1700000000000)))
     = [js ''https://example.org/promo.csv'']"
proof -
  let ?rows = "[[js ''Country'', js ''PromoText''], [js ''FR'', js ''Cached'']]"
  let ?u = "js ''https://example.org/promo.csv''"
  let ?e59 = "\<lparr>nowAtCall = 1700000000000 + 59 * 60000, nowAtStore = 0, fetch = network_up\<rparr>"
  let ?e61 = "\<lparr>nowAtCall = 1700000000000 + 61 * 60000, nowAtStore = 0, fetch = network_up\<rparr>"
  have c: "promoData (example_cache 1700000000000) = Some ?rows
         \<and> lastFetched (example_cache 1700000000000) = Some 1700000000000
         \<and> (1700000000000::int) \<noteq> 0"
    by (simp add: example_cache_def)
  have u: "dataSourceUrl example_config = Some ?u \<and> ?u \<noteq> []"
    by (simp add: example_config_def js_def)
  have t59: "nowAtCall ?e59 = 1700000000000 + 59 * 60000"
    and t61: "nowAtCall ?e61 = 1700000000000 + 61 * 60000"
    by simp_all
  have 1: "fetchPromoData example_config ?e59 (example_cache 1700000000000)
           = (Resolved ?rows, example_cache 1700000000000, [])"
    using cache_freshness[of "example_cache 1700000000000" ?rows 1700000000000 ?e59
        example_config ?u] c t59
    by blast
  have 2: "snd (snd (fetchPromoData example_config ?e61 (example_cache 1700000000000))) = [?u]"
    using cache_freshness[of "example_cache 1700000000000" ?rows 1700000000000 ?e61
        example_config ?u] c u t61
    by blast
  show ?thesis using 1 2 by blast
qed

text \<open>
  Claim C2. A cache whose rows and time stamp are both not null, with the time stamp 0
  (filled when \<^verbatim>\<open>Date.now()\<close> was 0): a call 59 minutes later, less than 3,600,000 ms
  after the time stamp, does not return the cached rows. The time stamp 0 is falsy, the
  test \<^verbatim>\<open>this.cache.promoData && this.cache.lastFetched\<close> fails, and the call fetches the
  configured URL, resolves with the fetched rows and overwrites the cache.
\<close>

theorem C2_time_stamp_zero:
  "promoData (example_cache 0) \<noteq> None \<and> lastFetched (example_cache 0) = Some 0
   \<and> (59 * 60000 - 0 < (3600000::int))
   \<and> fetchPromoData example_config
         \<lparr>nowAtCall = 59 * 60000, nowAtStore = 59 * 60000 + 200, fetch = network_up\<rparr>
         (example_cache 0)
       = (Resolved [[js ''Country'', js ''PromoText''], [js ''DE'', js ''Fresh'']],
          \<lparr>promoData = Some [[js ''Country'', js ''PromoText''], [js ''DE'', js ''Fresh'']],
            lastFetched = Some (59 * 60000 + 200)\<rparr>,
          [js ''https://example.org/promo.csv''])
   \<and> fetchPromoData example_config
         \<lparr>nowAtCall = 59 * 60000, nowAtStore = 59 * 60000 + 200, fetch = network_up\<rparr>
         (example_cache 0)
       \<noteq> (Resolved [[js ''Country'', js ''PromoText''], [js ''FR'', js ''Cached'']],
          example_cache 0, [])"
  by (simp add: fetchPromoData_def cache_hit_def example_cache_def example_config_def
      default_config_def network_up_def then_promise_def catch_promise_def Let_def
      parseCSV_def parse_line_def keep_row_def trim_def isWhiteSpace_def js_def)

text \<open>
  Claim C3. The promise of \<^verbatim>\<open>fetchPromoData\<close> always resolves. A call that fetches
  (nothing usable in the cache, a URL configured) and whose fetch fails resolves with
  the fallback rows and leaves the cache as it was, so a later call fetches the URL
  again. A call with no URL configured and nothing usable in the cache resolves with
  the fallback rows; with no URL configured no call changes the cache or fetches.
\<close>

theorem C3_fetch_failure:
  "(\<exists>rows. fst (fetchPromoData cf env c) = Resolved rows)
   \<and> (cache_hit (nowAtCall env) c = None \<and> dataSourceUrl cf = Some url \<and> url \<noteq> []
        \<and> fetch_fails env url \<longrightarrow>
         fetchPromoData cf env c = (Resolved getFallbackPromoData, c, [url])
       \<and> (nowAtCall env \<le> nowAtCall env' \<longrightarrow>
             snd (snd (fetchPromoData cf env' (fst (snd (fetchPromoData cf env c))))) = [url]))
   \<and> (cache_hit (nowAtCall env) c = None
        \<and> (dataSourceUrl cf = None \<or> dataSourceUrl cf = Some []) \<longrightarrow>
         fetchPromoData cf env c = (Resolved getFallbackPromoData, c, []))
   \<and> (dataSourceUrl cf = None \<or> dataSourceUrl cf = Some [] \<longrightarrow>
         snd (fetchPromoData cf env c) = (c, []))"
proof -
  have f: "fetchPromoData cf env c = (Resolved getFallbackPromoData, c, [url])
       \<and> (nowAtCall env \<le> nowAtCall env' \<longrightarrow>
             snd (snd (fetchPromoData cf env' (fst (snd (fetchPromoData cf env c))))) = [url])"
    if h: "cache_hit (nowAtCall env) c = None \<and> dataSourceUrl cf = Some url \<and> url \<noteq> []
        \<and> fetch_fails env url"
  proof -
    have 1: "fetchPromoData cf env c = (Resolved getFallbackPromoData, c, [url])"
      using h by (simp add: fetchPromoData_fails)
    have "snd (snd (fetchPromoData cf env' c)) = [url]" if "nowAtCall env \<le> nowAtCall env'"
      using h cache_hit_later[OF _ that, of c] by (simp add: fetchPromoData_log)
    then show ?thesis using 1 by simp
  qed
  show ?thesis
    using f fetchPromoData_resolves[of cf env c] fetchPromoData_no_url[of env c cf]
      fetchPromoData_no_url_cache[of cf env c]
    by blast
qed

theorem C3_fetch_failure_witness:
  "fetchPromoData example_config \<lparr>nowAtCall = 5000, nowAtStore = 5200, fetch = network_404\<rparr>
      \<lparr>promoData = None, lastFetched = None\<rparr>
     = (Resolved getFallbackPromoData, \<lparr>promoData = None, lastFetched = None\<rparr>,
        [js ''https://example.org/promo.csv''])
   \<and> fetchPromoData example_config \<lparr>nowAtCall = 5000, nowAtStore = 5200, fetch = network_down\<rparr>
      \<lparr>promoData = None, lastFetched = None\<rparr>
     = (Resolved getFallbackPromoData, \<lparr>promoData = None, lastFetched = None\<rparr>,
        [js ''https://example.org/promo.csv''])
   \<and> snd (snd (fetchPromoData example_config
        \<lparr>nowAtCall = 6000, nowAtStore = 6200, fetch = network_up\<rparr>
        (fst (snd (fetchPromoData example_config
           \<lparr>nowAtCall = 5000, nowAtStore = 5200, fetch = network_down\<rparr>
           \<lparr>promoData = None, lastFetched = None\<rparr>)))))
     = [js ''https://example.org/promo.csv'']
   \<and> fetchPromoData default_config \<lparr>nowAtCall = 5000, nowAtStore = 5200, fetch = network_up\<rparr>
      \<lparr>promoData = None, lastFetched = None\<rparr>
     = (Resolved getFallbackPromoData, \<lparr>promoData = None, lastFetched = None\<rparr>, [])"
proof -
  let ?c = "\<lparr>promoData = None, lastFetched = None\<rparr>"
  let ?u = "js ''https://example.org/promo.csv''"
  let ?e404 = "\<lparr>nowAtCall = 5000, nowAtStore = 5200, fetch = network_404\<rparr>"
  let ?edown = "\<lparr>nowAtCall = 5000, nowAtStore = 5200, fetch = network_down\<rparr>"
  let ?eup = "\<lparr>nowAtCall = 5000, nowAtStore = 5200, fetch = network_up\<rparr>"
  let ?later = "\<lparr>nowAtCall = 6000, nowAtStore = 6200, fetch = network_up\<rparr>"
  have h: "cache_hit (nowAtCall ?e404) ?c = None" "cache_hit (nowAtCall ?edown) ?c = None"
    "cache_hit (nowAtCall ?eup) ?c = None"
    "dataSourceUrl example_config = Some ?u" "?u \<noteq> []"
    "fetch_fails ?e404 ?u" "fetch_fails ?edown ?u"
    "dataSourceUrl default_config = Some []"
    "nowAtCall ?edown \<le> nowAtCall ?later"
    by (simp_all add: cache_hit_def example_config_def default_config_def fetch_fails_def
        network_404_def network_down_def js_def)
  have 1: "fetchPromoData example_config ?e404 ?c = (Resolved getFallbackPromoData, ?c, [?u])"
    using C3_fetch_failure[of example_config ?e404 ?c ?u ?later] h by blast
  have 2: "fetchPromoData example_config ?edown ?c = (Resolved getFallbackPromoData, ?c, [?u])
     \<and> snd (snd (fetchPromoData example_config ?later
            (fst (snd (fetchPromoData example_config ?edown ?c))))) = [?u]"
    using C3_fetch_failure[of example_config ?edown ?c ?u ?later] h by blast
  have 3: "fetchPromoData default_config ?eup ?c = (Resolved getFallbackPromoData, ?c, [])"
    using C3_fetch_failure[of default_config ?eup ?c ?u ?later] h by blast
  show ?thesis using 1 2 3 by blast
qed

section \<open>Properties of the configuration merge\<close>

subsection \<open>Index keys\<close>







lemma map_of_index_props_hit:
  "map_of (index_props (length pre) (x # xs)) (nat_to_string (length pre)) = Some x"
  by simp













subsection \<open>Writing a property\<close>

lemma map_of_define_own: "map_of (define_own key x ps) = (map_of ps)(key \<mapsto> x)"
  by (induction ps) (auto simp: fun_eq_iff)



lemma assign_object: "\<exists>proto' props'. assign key x (JObj proto props) = JObj proto' props'"
  by simp

lemma assign_own:
  "map_of props key = Some old \<Longrightarrow>
   assign key x (JObj proto props) = JObj proto (define_own key x props)"
  by simp

lemma assign_other_key:
  "k \<noteq> key \<Longrightarrow> map_of (own_props (assign k x (JObj proto props))) key = map_of props key"
  by (simp add: map_of_define_own)


subsection \<open>The loop\<close>

lemma merge_loop_Cons:
  "merge_loop result ((k, v) # rest) = Inr r \<Longrightarrow>
   \<exists>x. merge_loop (assign k x result) rest = Inr r
     \<and> (case (if is_composite v then composite_at result k else None) of
          Some old \<Rightarrow> mergeConfig old v = Inr x
        | None \<Rightarrow> x = v)"
  by (auto split: option.splits sum.splits if_splits)


lemma merge_loop_other_keys:
  "key \<notin> fst ` set kvs \<Longrightarrow> merge_loop (JObj proto props) kvs = Inr r \<Longrightarrow>
   map_of (own_props r) key = map_of props key"
proof (induction kvs arbitrary: proto props)
  case Nil
  then show ?case by auto
next
  case (Cons kv kvs)
  obtain k v where kv: "kv = (k, v)" by (cases kv)
  obtain x where x: "merge_loop (assign k x (JObj proto props)) kvs = Inr r"
    using Cons.prems(2) merge_loop_Cons[of "JObj proto props" k v kvs r] unfolding kv by blast
  obtain proto' props' where a: "assign k x (JObj proto props) = JObj proto' props'"
    using assign_object by blast
  have ne: "k \<noteq> key" and rest: "key \<notin> fst ` set kvs" using Cons.prems(1) kv by auto
  have "map_of props' key = map_of props key"
    using assign_other_key[OF ne, of x proto props] a by simp
  then show ?case using Cons.IH[OF rest, of proto' props'] x a by simp
qed

lemma merge_loop_own_key:
  "distinct (map fst kvs) \<Longrightarrow> map_of props key = Some old \<Longrightarrow> map_of kvs key = Some v \<Longrightarrow>
   merge_loop (JObj proto props) kvs = Inr r \<Longrightarrow>
   \<exists>m. merged_value old v = Inr m \<and> map_of (own_props r) key = Some m"
proof (induction kvs arbitrary: proto props)
  case Nil
  then show ?case by simp
next
  case (Cons kv kvs)
  obtain k v0 where kv: "kv = (k, v0)" by (cases kv)
  obtain x where x: "merge_loop (assign k x (JObj proto props)) kvs = Inr r"
    and s: "case (if is_composite v0 then composite_at (JObj proto props) k else None) of
              Some old \<Rightarrow> mergeConfig old v0 = Inr x
            | None \<Rightarrow> x = v0"
    using Cons.prems(4) merge_loop_Cons[of "JObj proto props" k v0 kvs r] unfolding kv by blast
  have d: "distinct (map fst kvs)" and fresh: "k \<notin> fst ` set kvs"
    using Cons.prems(1) kv by auto
  show ?case
  proof (cases "k = key")
    case True
    have v0: "v0 = v" using Cons.prems(3) kv True by simp
    have m: "merged_value old v = Inr x"
      using s Cons.prems(2) True v0 by (simp add: merged_value_def split: if_splits)
    have a: "assign k x (JObj proto props) = JObj proto (define_own key x props)"
      using assign_own[OF Cons.prems(2)] True by simp
    have "map_of (own_props r) key = map_of (define_own key x props) key"
      using merge_loop_other_keys[of key kvs proto "define_own key x props" r] fresh True x a
      by simp
    then show ?thesis using m by (simp add: map_of_define_own)
  next
    case False
    obtain proto' props' where a: "assign k x (JObj proto props) = JObj proto' props'"
      using assign_object by blast
    have "map_of props' key = map_of props key"
      using assign_other_key[OF False, of x proto props] a by simp
    then have o: "map_of props' key = Some old" using Cons.prems(2) by simp
    have r: "map_of kvs key = Some v" using Cons.prems(3) kv False by simp
    show ?thesis using Cons.IH[OF d o r, of proto'] x a by simp
  qed
qed

lemma mergeConfig_Inr:
  "mergeConfig defaultConfig userConfig = Inr r \<Longrightarrow>
   merge_loop (plain_object (own_props defaultConfig)) (own_props userConfig) = Inr r"
  by (simp split: if_splits)


subsection \<open>Merging an array into an array\<close>







subsection \<open>Overrides that cannot throw\<close>







subsection \<open>An object in the place of an array\<close>





subsection \<open>Overrides without the key \<^verbatim>\<open>__proto__\<close>\<close>

lemma assign_not_proto:
  "k \<noteq> js ''__proto__'' \<Longrightarrow> assign k x (JObj proto props) = JObj proto (define_own k x props)"
  by simp

lemma merge_loop_keeps_prototype:
  "js ''__proto__'' \<notin> fst ` set kvs \<Longrightarrow> merge_loop (JObj proto props) kvs = Inr r \<Longrightarrow>
   \<exists>props'. r = JObj proto props'"
proof (induction kvs arbitrary: props)
  case Nil
  then show ?case by auto
next
  case (Cons kv kvs)
  obtain k v where kv: "kv = (k, v)" by (cases kv)
  obtain x where x: "merge_loop (assign k x (JObj proto props)) kvs = Inr r"
    using Cons.prems(2) merge_loop_Cons[of "JObj proto props" k v kvs r] unfolding kv by blast
  have ne: "k \<noteq> js ''__proto__''" and rest: "js ''__proto__'' \<notin> fst ` set kvs"
    using Cons.prems(1) kv by auto
  show ?case using Cons.IH[OF rest, of "define_own k x props"] x assign_not_proto[OF ne] by simp
qed

lemma merge_loop_new_key:
  "distinct (map fst kvs) \<Longrightarrow> js ''__proto__'' \<notin> fst ` set kvs \<Longrightarrow>
   map_of props key = None \<Longrightarrow> map_of kvs key = Some v \<Longrightarrow>
   merge_loop (plain_object props) kvs = Inr r \<Longrightarrow>
   map_of (own_props r) key = Some v"
proof (induction kvs arbitrary: props)
  case Nil
  then show ?case by simp
next
  case (Cons kv kvs)
  obtain k v0 where kv: "kv = (k, v0)" by (cases kv)
  obtain x where x: "merge_loop (assign k x (plain_object props)) kvs = Inr r"
    and s: "case (if is_composite v0 then composite_at (plain_object props) k else None) of
              Some old \<Rightarrow> mergeConfig old v0 = Inr x
            | None \<Rightarrow> x = v0"
    using Cons.prems(5) merge_loop_Cons[of "plain_object props" k v0 kvs r] unfolding kv by blast
  have d: "distinct (map fst kvs)" and fresh: "k \<notin> fst ` set kvs"
    and ne: "k \<noteq> js ''__proto__''" and rest: "js ''__proto__'' \<notin> fst ` set kvs"
    using Cons.prems(1,2) kv by auto
  have a: "assign k x (plain_object props) = plain_object (define_own k x props)"
    using assign_not_proto[OF ne] by simp
  show ?case
  proof (cases "k = key")
    case True
    have v0: "v0 = v" using Cons.prems(4) kv True by simp
    have "composite_at (plain_object props) k = None"
      using Cons.prems(3) True ne by simp
    then have xv: "x = v" using s v0 by (auto split: if_splits simp del: composite_at.simps)
    have "map_of (own_props r) key = map_of (define_own key x props) key"
      using merge_loop_other_keys[of key kvs JObjectPrototype "define_own key x props" r]
        fresh True x a by simp
    then show ?thesis using xv by (simp add: map_of_define_own)
  next
    case False
    have o: "map_of (define_own k x props) key = None"
      using Cons.prems(3) False by (simp add: map_of_define_own)
    have r: "map_of kvs key = Some v" using Cons.prems(4) kv False by simp
    show ?thesis using Cons.IH[OF d rest o r] x a by simp
  qed
qed

text \<open>
  For an override that has each key once and no key \<^verbatim>\<open>__proto__\<close>, a merge that returns
  gives an object with the prototype \<^verbatim>\<open>Object.prototype\<close> that holds, at every key of the
  override, the recursive merge of the two values when both are composite and the
  override's value otherwise, and at every other key what the base holds. The merge
  returns when no object of the override has a key \<^verbatim>\<open>hasOwnProperty\<close>; merging the empty
  object gives a copy of the base, and the two examples of the specification come out
  as stated.
\<close>

lemma mergeConfig_at_keys:
  assumes "distinct (map fst override)" "map_of override (js ''__proto__'') = None"
    and "mergeConfig (JObj bproto base) (JObj oproto override) = Inr merged"
  shows "\<exists>props. merged = plain_object props
     \<and> (case map_of override key of
          None \<Rightarrow> map_of props key = map_of base key
        | Some v \<Rightarrow>
            (case map_of base key of
               None \<Rightarrow> map_of props key = Some v
             | Some old \<Rightarrow> \<exists>m. merged_value old v = Inr m \<and> map_of props key = Some m))"
proof -
  have l: "merge_loop (plain_object base) override = Inr merged"
    using mergeConfig_Inr[OF assms(3)] by simp
  have np: "js ''__proto__'' \<notin> fst ` set override"
    using assms(2) by (simp add: map_of_eq_None_iff)
  obtain props where p: "merged = plain_object props"
    using merge_loop_keeps_prototype[OF np l] by blast
  have "case map_of override key of
          None \<Rightarrow> map_of props key = map_of base key
        | Some v \<Rightarrow>
            (case map_of base key of
               None \<Rightarrow> map_of props key = Some v
             | Some old \<Rightarrow> \<exists>m. merged_value old v = Inr m \<and> map_of props key = Some m)"
  proof (cases "map_of override key")
    case None
    then have "key \<notin> fst ` set override" by (simp add: map_of_eq_None_iff)
    then show ?thesis using merge_loop_other_keys[of key override _ base merged] l p None by simp
  next
    case (Some v)
    show ?thesis
    proof (cases "map_of base key")
      case None
      then show ?thesis
        using merge_loop_new_key[OF assms(1) np None Some l] p Some by simp
    next
      case (Some old)
      then show ?thesis
        using merge_loop_own_key[OF assms(1) Some \<open>map_of override key = Some v\<close> l] p
          \<open>map_of override key = Some v\<close> by simp
    qed
  qed
  then show ?thesis using p by blast
qed

lemma mergeConfig_examples:
  "mergeConfig C (plain_object []) = Inr (plain_object (own_props C))
   \<and> mergeConfig (plain_object [(js ''a'', plain_object [(js ''x'', JNum 1), (js ''y'', JNum 2)])])
                  (plain_object [(js ''a'', plain_object [(js ''x'', JNum 9)])])
       = Inr (plain_object [(js ''a'', plain_object [(js ''x'', JNum 9), (js ''y'', JNum 2)])])
   \<and> mergeConfig (plain_object [(js ''a'', plain_object [(js ''x'', JNum 1)])])
                  (plain_object [(js ''a'', JNum 5)])
       = Inr (plain_object [(js ''a'', JNum 5)])"
  by (simp add: js_def)

text \<open>
  Claim C5. Two overrides at which the merge does not hold the override's value at the
  override's key. For the override \<^verbatim>\<open>{"hasOwnProperty": 1}\<close> the call
  \<^verbatim>\<open>userConfig.hasOwnProperty(key)\<close> throws a TypeError and nothing is returned. For the
  override \<^verbatim>\<open>{"__proto__": 5}\<close>, as \<^verbatim>\<open>JSON.parse\<close> gives it, the assignment
  \<^verbatim>\<open>result['__proto__'] = 5\<close> runs the setter of \<^verbatim>\<open>Object.prototype\<close>, which ignores a
  number: the result is a copy of the base and has no property \<^verbatim>\<open>__proto__\<close>. For the
  override \<^verbatim>\<open>{"__proto__": {"x": 1}}\<close> the result has no property \<^verbatim>\<open>__proto__\<close> either;
  the merged object has become its prototype.
\<close>

theorem C5_mergeConfig_keys_of_Object_prototype:
  "mergeConfig (plain_object [(js ''a'', JNum 1)]) (plain_object [(js ''hasOwnProperty'', JNum 1)])
     = Inl TypeError
   \<and> mergeConfig (plain_object [(js ''a'', JNum 1)]) (plain_object [(js ''__proto__'', JNum 5)])
     = Inr (plain_object [(js ''a'', JNum 1)])
   \<and> mergeConfig (plain_object [(js ''a'', JNum 1)])
        (plain_object [(js ''__proto__'', plain_object [(js ''x'', JNum 1)])])
     = Inr (JObj (plain_object [(js ''x'', JNum 1)]) [(js ''a'', JNum 1)])
   \<and> map_of (own_props (plain_object [(js ''a'', JNum 1)])) (js ''__proto__'') = None
   \<and> map_of (own_props (JObj (plain_object [(js ''x'', JNum 1)]) [(js ''a'', JNum 1)]))
        (js ''__proto__'') = None"
  by (simp add: js_def precedes_def array_index_def)


section \<open>Properties of the country detection\<close>

lemmas country_example_defs = js_def in_quotes_def json_country_def truncated_country_def
  spaced_country_def checkout_key_def billing_country_literal_def isUpper_def
  isWhiteSpace_def match_here_def json_ws_def isDigit_def isHex_def json_number_def
  json_fraction_def json_exponent_def JSON_valid_def

lemma match_here_code:
  "match_here s = Some country \<Longrightarrow> length country = 2 \<and> list_all isUpper country"
  by (auto simp: match_here_def split: if_splits list.splits)

lemma billing_country_match_code:
  "billing_country_match s = Some country \<Longrightarrow> length country = 2 \<and> list_all isUpper country"
proof (induction s)
  case Nil
  then show ?case using match_here_code[of "[]"] by simp
next
  case (Cons c cs)
  then show ?case using match_here_code[of "c # cs"] by (auto split: option.splits)
qed

lemma scan_storage_code:
  "scan_storage entries rest = Some country \<Longrightarrow> length country = 2 \<and> list_all isUpper country"
proof (induction rest)
  case Nil
  then show ?case by simp
next
  case (Cons e rest)
  obtain key v where e: "e = (key, v)" by (cases e)
  show ?case
    using Cons billing_country_match_code unfolding e
    by (auto split: option.splits if_splits)
qed

lemma session_code:
  "getCountryFromSessionStorage P storage = Some country \<Longrightarrow>
   length country = 2 \<and> list_all isUpper country"
  using billing_country_match_code scan_storage_code
  by (auto simp: getCountryFromSessionStorage_def split: sum.splits option.splits if_splits)

lemma getCountry_resolves:
  "\<exists>country. getCountry P storage = Resolved country \<and> length country = 2
     \<and> list_all isUpper country"
proof (cases "getCountryFromSessionStorage P storage")
  case None
  then show ?thesis
    by (simp add: getCountry_def getCountryFromHeader_def js_def isUpper_def)
next
  case (Some country)
  then have "length country = 2 \<and> list_all isUpper country" by (rule session_code)
  then show ?thesis using Some
    by (auto simp: getCountry_def getCountryFromHeader_def)
qed

lemma getCountry_session:
  "getCountry P storage
     = Resolved (case getCountryFromSessionStorage P storage of
                   None \<Rightarrow> js ''US'' | Some country \<Rightarrow> country)"
proof (cases "getCountryFromSessionStorage P storage")
  case None
  then show ?thesis by (simp add: getCountry_def getCountryFromHeader_def)
next
  case (Some country)
  then have "length country = 2" using session_code by blast
  then have "country \<noteq> []" by auto
  then show ?thesis using Some by (simp add: getCountry_def getCountryFromHeader_def)
qed

subsection \<open>The scan finds the first entry that matches\<close>

lemma starts_with_append: "starts_with s (a @ b) \<Longrightarrow> starts_with s a"
  by (induction s a rule: starts_with.induct) auto

lemma starts_with_includes: "starts_with s sub \<Longrightarrow> js_includes s sub"
  by (cases s; cases sub) auto

lemma match_here_marker:
  assumes "match_here s = Some country"
  shows "js_includes s (js ''billing_country'')"
proof -
  have "starts_with s ([34] @ js ''billing_country'' @ [34, 58])"
    using assms by (simp add: match_here_def billing_country_literal_def split: if_splits)
  then obtain t where s: "s = 34 # t" and t: "starts_with t (js ''billing_country'' @ [34, 58])"
    by (cases s) auto
  have "starts_with t (js ''billing_country'')" using t by (rule starts_with_append)
  then have "js_includes t (js ''billing_country'')" by (rule starts_with_includes)
  then show ?thesis using s by simp
qed

lemma billing_country_match_marker:
  "billing_country_match s = Some country \<Longrightarrow> s \<noteq> [] \<and> js_includes s (js ''billing_country'')"
proof (induction s)
  case Nil
  then show ?case by (simp add: match_here_def billing_country_literal_def)
next
  case (Cons c cs)
  show ?case
  proof (cases "match_here (c # cs)")
    case None
    then have "js_includes cs (js ''billing_country'')" using Cons by simp
    then show ?thesis by simp
  next
    case (Some a)
    then show ?thesis using match_here_marker[of "c # cs" a] by simp
  qed
qed

lemma scan_storage_find:
  "\<forall>(key, item) \<in> set rest. map_of entries key = Some item \<Longrightarrow>
   scan_storage entries rest
     = (case find (\<lambda>(key, item). billing_country_match item \<noteq> None) rest of
          None \<Rightarrow> None
        | Some (key, item) \<Rightarrow> billing_country_match item)"
proof (induction rest)
  case Nil
  show ?case by simp
next
  case (Cons e rest)
  obtain key item where e: "e = (key, item)" by (cases e)
  have m: "map_of entries key = Some item" using Cons.prems e by simp
  have ih: "scan_storage entries rest
     = (case find (\<lambda>(key, item). billing_country_match item \<noteq> None) rest of
          None \<Rightarrow> None
        | Some (key, item) \<Rightarrow> billing_country_match item)"
    using Cons by simp
  show ?case
  proof (cases "billing_country_match item")
    case None
    then show ?thesis using ih m e by simp
  next
    case (Some country)
    then have "item \<noteq> [] \<and> js_includes item (js ''billing_country'')"
      by (rule billing_country_match_marker)
    then show ?thesis using Some m e by simp
  qed
qed

lemma scan_storage_all:
  assumes "distinct (map fst entries)"
  shows "scan_storage entries entries
     = (case find (\<lambda>(key, item). billing_country_match item \<noteq> None) entries of
          None \<Rightarrow> None
        | Some (key, item) \<Rightarrow> billing_country_match item)"
proof (rule scan_storage_find)
  show "\<forall>(key, item) \<in> set entries. map_of entries key = Some item"
    using assms by auto
qed

text \<open>
  Claim C4, as the code has it. \<^verbatim>\<open>getCountry\<close> always resolves, with two letters in
  \<^verbatim>\<open>A-Z\<close>, whatever the storage holds and whether or not reaching it throws. The header
  gives nothing. When the checkout key holds a non-empty value that \<^verbatim>\<open>JSON.parse\<close>
  accepts and the pattern matches the raw string, the matched code is the result, whatever
  the other entries hold; the parsed structure is not looked at. In every other case (the
  key is absent, its value is empty, does not parse, or does not match) all entries are
  scanned in storage order, and the first value the pattern matches gives the code; with
  no such value the result is \<open>US\<close>.
\<close>

theorem C4_getCountry:
  "(\<exists>country. getCountry P storage = Resolved country \<and> length country = 2
       \<and> list_all isUpper country)
   \<and> getCountryFromHeader = None
   \<and> getCountry P (Inl err) = Resolved (js ''US'')
   \<and> (map_of entries checkout_key = Some raw \<and> raw \<noteq> [] \<and> P raw
        \<and> billing_country_match raw = Some country \<longrightarrow>
       getCountry P (Inr entries) = Resolved country)
   \<and> (map_of entries checkout_key = None
        \<or> (map_of entries checkout_key = Some raw
            \<and> (raw = [] \<or> \<not> P raw \<or> billing_country_match raw = None)) \<longrightarrow>
       getCountry P (Inr entries)
         = Resolved (case scan_storage entries entries of
                       None \<Rightarrow> js ''US'' | Some country \<Rightarrow> country))
   \<and> (distinct (map fst entries) \<longrightarrow>
       scan_storage entries entries
         = (case find (\<lambda>(key, item). billing_country_match item \<noteq> None) entries of
              None \<Rightarrow> None
            | Some (key, item) \<Rightarrow> billing_country_match item))"
proof -
  have 1: "getCountry P (Inl err) = Resolved (js ''US'')"
    by (simp add: getCountry_session getCountryFromSessionStorage_def)
  have 2: "getCountry P (Inr entries) = Resolved country"
    if "map_of entries checkout_key = Some raw \<and> raw \<noteq> [] \<and> P raw
        \<and> billing_country_match raw = Some country"
    using that by (simp add: getCountry_session getCountryFromSessionStorage_def)
  have 3: "getCountry P (Inr entries)
         = Resolved (case scan_storage entries entries of
                       None \<Rightarrow> js ''US'' | Some country \<Rightarrow> country)"
    if "map_of entries checkout_key = None
        \<or> (map_of entries checkout_key = Some raw
            \<and> (raw = [] \<or> \<not> P raw \<or> billing_country_match raw = None))"
    using that by (auto simp: getCountry_session getCountryFromSessionStorage_def)
  show ?thesis
    using getCountry_resolves[of P storage] 1 2 3 scan_storage_all[of entries]
    by (simp add: getCountryFromHeader_def)
qed

theorem C4_getCountry_witness:
  "getCountry JSON_valid
      (Inr [(js ''other'', json_country ''FR''), (checkout_key, json_country ''DE'')])
     = Resolved (js ''DE'')
   \<and> getCountry JSON_valid (Inr [(js ''other'', json_country ''FR'')]) = Resolved (js ''FR'')
   \<and> getCountry JSON_valid (Inr []) = Resolved (js ''US'')
   \<and> getCountry JSON_valid (Inl SecurityError) = Resolved (js ''US'')"
proof -
  let ?e = "[(js ''other'', json_country ''FR''), (checkout_key, json_country ''DE'')]"
  let ?f = "[(js ''other'', json_country ''FR'')]"
  have h: "map_of ?e checkout_key = Some (json_country ''DE'')" "json_country ''DE'' \<noteq> []"
    "JSON_valid (json_country ''DE'')"
    "billing_country_match (json_country ''DE'') = Some (js ''DE'')"
    by (simp_all add: country_example_defs)
  have 1: "getCountry JSON_valid (Inr ?e) = Resolved (js ''DE'')"
    using C4_getCountry[of JSON_valid "Inr ?e" SecurityError ?e "json_country ''DE''" "js ''DE''"] h
    by blast
  have g: "map_of ?f checkout_key = None" "map_of [] checkout_key = (None :: jsstring option)"
    by (simp_all add: country_example_defs)
  have s: "scan_storage ?f ?f = Some (js ''FR'')" "scan_storage [] [] = None"
    by (simp_all add: country_example_defs)
  have 2: "getCountry JSON_valid (Inr ?f) = Resolved (js ''FR'')"
    using C4_getCountry[of JSON_valid "Inr ?f" SecurityError ?f "[]" "[]"] g(1)
    by (simp only: s option.case) blast
  have 3: "getCountry JSON_valid (Inr []) = Resolved (js ''US'')"
    using C4_getCountry[of JSON_valid "Inr []" SecurityError "[]" "[]" "[]"] g(2)
    by (simp only: s option.case) blast
  have 4: "getCountry JSON_valid (Inl SecurityError) = Resolved (js ''US'')"
    using C4_getCountry[of JSON_valid "Inr []" SecurityError "[]" "[]" "[]"] by blast
  show ?thesis using 1 2 3 4 by blast
qed

text \<open>
  The claim as the specification words it fails. Here the checkout key is present, its
  value is cut off and does not parse, and the pattern matches the raw string with
  \<open>DE\<close>: the claim gives \<open>DE\<close>, the code goes on to the scan and returns the \<open>FR\<close> of an
  entry that comes first in storage order. And a checkout value that parses, with
  \<open>DE\<close> as its \<^verbatim>\<open>billing_country\<close> but a space before the colon, gives \<open>US\<close>: the
  pattern, not the parsed structure, is what the code reads.
\<close>

theorem C4_counterexample:
  "map_of [(js ''other'', json_country ''FR''), (checkout_key, truncated_country ''DE'')]
       checkout_key = Some (truncated_country ''DE'')
   \<and> \<not> JSON_valid (truncated_country ''DE'')
   \<and> billing_country_match (truncated_country ''DE'') = Some (js ''DE'')
   \<and> getCountry JSON_valid
         (Inr [(js ''other'', json_country ''FR''), (checkout_key, truncated_country ''DE'')])
       = Resolved (js ''FR'')
   \<and> js ''FR'' \<noteq> js ''DE''
   \<and> JSON_valid (spaced_country ''DE'')
   \<and> getCountry JSON_valid (Inr [(checkout_key, spaced_country ''DE'')]) = Resolved (js ''US'')"
  by (simp add: getCountry_def getCountryFromHeader_def getCountryFromSessionStorage_def
      country_example_defs)


end
